theory Spec2Isabelle
  imports Complex_Main "HOL-Library.Sublist" "HOL-Library.AList"
begin

section \<open>Splitting a cruise CTD archive into single-station files\<close>

text \<open>
  A shallow embedding of \<^verbatim>\<open>CTD_NetCDF_cruise_to_stations.py\<close>. The script opens a cruise
  archive, repairs its global attributes once, and then builds and writes one dataset per
  station. Attribute dictionaries are the only objects the script mutates, so they live in
  an explicit store and datasets hold addresses of their dictionaries; array data is never
  written to and is kept by value. Every Python exception and \<^verbatim>\<open>sys.exit\<close> is a value of
  \<open>error\<close>.

  A floating-point value is a real number or NaN, the value that \<^verbatim>\<open>xr.open_dataset\<close>
  puts in the cells a station has not populated; rounding and the infinities are outside
  the model. A timestamp is represented by its ISO text, as \<^verbatim>\<open>str\<close> prints it.
\<close>

subsection \<open>Errors\<close>

datatype error =
    KeyError string
  | IndexError
  | ValueError
  | TypeError
  | AttributeError
  | SystemExit string

text \<open>Sequencing: the first error ends the computation, as a raised exception does.\<close>

definition and_then :: "error + 'a \<Rightarrow> ('a \<Rightarrow> error + 'b) \<Rightarrow> error + 'b" where
  "and_then m f = (case m of Inl e \<Rightarrow> Inl e | Inr x \<Rightarrow> f x)"

subsection \<open>Python string operations\<close>

text \<open>\<^verbatim>\<open>s.split(sep)\<close> for a one-character separator: one token more than separators.\<close>

fun split_on :: "char \<Rightarrow> string \<Rightarrow> string list" where
  "split_on sep [] = [[]]"
| "split_on sep (c # cs) =
     (if c = sep then [] # split_on sep cs
      else (case split_on sep cs of
              [] \<Rightarrow> [[c]]
            | t # ts \<Rightarrow> (c # t) # ts))"

text \<open>\<^verbatim>\<open>s.replace(old, new)\<close>: leftmost, non-overlapping occurrences.\<close>

function str_replace :: "string \<Rightarrow> string \<Rightarrow> string \<Rightarrow> string" where
  "str_replace old new [] = (if old = [] then new else [])"
| "str_replace old new (c # cs) =
     (if old = [] then new @ c # str_replace old new cs
      else if prefix old (c # cs)
        then new @ str_replace old new (drop (length old) (c # cs))
      else c # str_replace old new cs)"
  by pat_completeness auto
termination
  by (relation "measure (\<lambda>(old, new, s). length s)") auto

text \<open>\<^verbatim>\<open>sub in s\<close> on strings: \<open>sub\<close> occurs somewhere in \<open>s\<close>.\<close>

fun contains :: "string \<Rightarrow> string \<Rightarrow> bool" where
  "contains sub [] = (sub = [])"
| "contains sub (c # cs) = (prefix sub (c # cs) \<or> contains sub cs)"

subsection \<open>Python built-ins on sequences\<close>

text \<open>
  Floating-point values. Every comparison with NaN is false, and NaN is not equal to
  itself; an arithmetic operation on NaN gives NaN.
\<close>

datatype pyfloat = Finite real | NaN

fun less_float :: "pyfloat \<Rightarrow> pyfloat \<Rightarrow> bool" where
  "less_float (Finite a) (Finite b) = (a < b)"
| "less_float x y = False"

fun eq_float :: "pyfloat \<Rightarrow> pyfloat \<Rightarrow> bool" where
  "eq_float (Finite a) (Finite b) = (a = b)"
| "eq_float x y = False"

fun mul_float :: "pyfloat \<Rightarrow> pyfloat \<Rightarrow> pyfloat" where
  "mul_float (Finite a) (Finite b) = Finite (a * b)"
| "mul_float x y = NaN"

text \<open>
  \<^verbatim>\<open>min(xs)\<close> and \<^verbatim>\<open>max(xs)\<close> start from the first element and replace the current
  extreme by an element that compares strictly below (above) it; an empty sequence raises.
\<close>

fun py_min :: "pyfloat list \<Rightarrow> error + pyfloat" where
  "py_min [] = Inl ValueError"
| "py_min (x # xs) = Inr (foldl (\<lambda>m y. if less_float y m then y else m) x xs)"

fun py_max :: "pyfloat list \<Rightarrow> error + pyfloat" where
  "py_max [] = Inl ValueError"
| "py_max (x # xs) = Inr (foldl (\<lambda>m y. if less_float m y then y else m) x xs)"

text \<open>
  \<^verbatim>\<open>xs.index(v)\<close>: the first position whose element equals \<open>v\<close>, or an error. The
  elements and \<open>v\<close> are scalars taken out of different arrays, so no element is the same
  object as \<open>v\<close> and the comparison is \<^verbatim>\<open>==\<close>.
\<close>

fun py_index :: "pyfloat list \<Rightarrow> pyfloat \<Rightarrow> error + nat" where
  "py_index [] v = Inl ValueError"
| "py_index (x # xs) v =
     (if eq_float x v then Inr 0
      else and_then (py_index xs v) (\<lambda>i. Inr (Suc i)))"

text \<open>\<^verbatim>\<open>xs[i]\<close> for a non-negative index.\<close>

definition py_get :: "'a list \<Rightarrow> nat \<Rightarrow> error + 'a" where
  "py_get xs i = (if i < length xs then Inr (xs ! i) else Inl IndexError)"

text \<open>\<^verbatim>\<open>xs[a:b]\<close> for non-negative bounds: empty when \<open>b \<le> a\<close>, clipped at the end.\<close>

definition py_slice :: "'a list \<Rightarrow> nat \<Rightarrow> nat \<Rightarrow> 'a list" where
  "py_slice xs a b = take (b - a) (drop a xs)"

text \<open>Applying several per-row computations, stopping at the first error.\<close>

fun map_result :: "('a \<Rightarrow> error + 'b) \<Rightarrow> 'a list \<Rightarrow> error + 'b list" where
  "map_result f [] = Inr []"
| "map_result f (x # xs) =
     and_then (f x) (\<lambda>y. and_then (map_result f xs) (\<lambda>ys. Inr (y # ys)))"

subsection \<open>Attribute dictionaries and the store\<close>

datatype attr_value = AStr string | ANum pyfloat | AArr "string list"

type_synonym attrs = "string \<rightharpoonup> attr_value"

type_synonym addr = nat

type_synonym heap = "attrs list"

text \<open>A new dictionary object: \<^verbatim>\<open>d.copy()\<close>, \<^verbatim>\<open>dict(d)\<close>, \<^verbatim>\<open>{}\<close>.\<close>

definition alloc :: "attrs \<Rightarrow> heap \<Rightarrow> addr \<times> heap" where
  "alloc d h = (length h, h @ [d])"

text \<open>\<^verbatim>\<open>d[k]\<close>, \<^verbatim>\<open>d[k] = v\<close> and \<^verbatim>\<open>del d[k]\<close> on the dictionary at address \<open>a\<close>.\<close>

definition attrs_get :: "heap \<Rightarrow> addr \<Rightarrow> string \<Rightarrow> error + attr_value" where
  "attrs_get h a k = (case (h ! a) k of None \<Rightarrow> Inl (KeyError k) | Some v \<Rightarrow> Inr v)"

definition attrs_set :: "addr \<Rightarrow> string \<Rightarrow> attr_value \<Rightarrow> heap \<Rightarrow> heap" where
  "attrs_set a k v h = h[a := (h ! a)(k \<mapsto> v)]"

definition attrs_del :: "addr \<Rightarrow> string \<Rightarrow> heap \<Rightarrow> error + heap" where
  "attrs_del a k h =
     (case (h ! a) k of
        None \<Rightarrow> Inl (KeyError k)
      | Some v \<Rightarrow> Inr (h[a := (h ! a)(k := None)]))"

text \<open>Reading an attribute that the script uses as a string operand of \<^verbatim>\<open>+\<close>.\<close>

definition attrs_get_str :: "heap \<Rightarrow> addr \<Rightarrow> string \<Rightarrow> error + string" where
  "attrs_get_str h a k =
     (case attrs_get h a k of
        Inl e \<Rightarrow> Inl e
      | Inr (AStr s) \<Rightarrow> Inr s
      | Inr _ \<Rightarrow> Inl TypeError)"

subsection \<open>Datasets\<close>

text \<open>
  A variable of the parent archive: its dimension names, its values laid out as rows along
  the first axis (the station axis for a two-dimensional variable), and the address of its
  attribute dictionary.
\<close>

record variable =
  dims :: "string list"
  rows :: "pyfloat list list"
  attrs_ref :: addr

text \<open>
  The opened archive: the data variables in file order (names are dictionary keys), the
  coordinate arrays the script reads, and the address of the global attribute dictionary.
\<close>

record dataset =
  data_vars :: "(string \<times> variable) list"
  LATITUDE :: "pyfloat list"
  LONGITUDE :: "pyfloat list"
  TIME :: "string list"
  POSITION :: "nat list"
  ds_attrs :: addr

text \<open>Library routines whose output format the script does not fix.\<close>

record pylib =
  format_4f :: "pyfloat \<Rightarrow> string"
  str_of_value :: "attr_value \<Rightarrow> string"

text \<open>What an f-string interpolates for an attribute value.\<close>

definition format_value :: "pylib \<Rightarrow> attr_value \<Rightarrow> string" where
  "format_value lib v = (case v of AStr s \<Rightarrow> s | _ \<Rightarrow> str_of_value lib v)"

subsection \<open>Parent\_NetCDF\_File\<close>

record parent_file =
  contents :: dataset
  latitudes :: "pyfloat list"
  longitudes :: "pyfloat list"
  times :: "string list"
  min_pressures :: "pyfloat list"
  max_pressures :: "pyfloat list"

text \<open>\<^verbatim>\<open>self.contents['PRES']\<close> iterated row by row.\<close>

definition pressure_rows :: "dataset \<Rightarrow> error + pyfloat list list" where
  "pressure_rows ds =
     (case map_of (data_vars ds) ''PRES'' of
        None \<Rightarrow> Inl (KeyError ''PRES'')
      | Some v \<Rightarrow>
          if length (dims v) < 2 then Inl TypeError
          else if length (dims v) > 2 then Inl ValueError
          else Inr (rows v))"

definition get_coordinate_variables_values ::
    "dataset \<Rightarrow> pyfloat list \<times> pyfloat list \<times> string list" where
  "get_coordinate_variables_values ds = (LATITUDE ds, LONGITUDE ds, TIME ds)"

definition get_min_max_pressures :: "dataset \<Rightarrow> error + (pyfloat list \<times> pyfloat list)" where
  "get_min_max_pressures ds =
     and_then (pressure_rows ds) (\<lambda>rs.
     and_then (map_result py_min rs) (\<lambda>mins.
     and_then (map_result py_max rs) (\<lambda>maxs.
       Inr (mins, maxs))))"

definition acknowledgement_text :: "string \<Rightarrow> string" where
  "acknowledgement_text doi =
     ''The Nansen Legacy project is funded by the Research Council of Norway (RCN # 276730). These data are created from the CTD data published by NMDC for the whole cruise (''
     @ doi
     @ ''). The values have not be changed. For information about this process, please contact Luke Marsden at data.nleg@unis.no''"

text \<open>The text appended to the summary is a plain literal: its braces are not interpolated.\<close>

definition summary_suffix :: string where
  "summary_suffix =
     '' These data are created from the CTD data published by NMDC for the whole cruise ({self.contents.attrs[''
     @ [CHR 0x22] @ ''doi'' @ [CHR 0x22]
     @ '']}). The values have not be changed.''"

definition unwanted_atts :: "string list" where
  "unwanted_atts =
     [''last_latitude_observation'', ''last_longitude_observation'',
      ''format_version'', ''last_date_observation'']"

fun del_all :: "addr \<Rightarrow> string list \<Rightarrow> heap \<Rightarrow> error + heap" where
  "del_all a [] h = Inr h"
| "del_all a (k # ks) h =
     and_then (attrs_del a k h) (del_all a ks)"

definition add_change_drop_gloabl_attributes ::
    "pylib \<Rightarrow> dataset \<Rightarrow> heap \<Rightarrow> error + heap" where
  "add_change_drop_gloabl_attributes lib ds h0 =
     (let g = ds_attrs ds;
          h1 = attrs_set g ''project'' (AStr ''The Nansen Legacy Project (RCN # 276730)'') h0
      in and_then (attrs_get h1 g ''doi'') (\<lambda>doi.
         let h2 = attrs_set g ''acknowledgement''
                    (AStr (acknowledgement_text (format_value lib doi))) h1
         in and_then (attrs_get_str h2 g ''summary'') (\<lambda>summ.
         let h3 = attrs_set g ''summary'' (AStr (summ @ summary_suffix)) h2
         in and_then (attrs_get_str h3 g ''doi'') (\<lambda>doi_s.
         let h4 = attrs_set g ''references'' (AStr (''https://doi.org/'' @ doi_s)) h3;
             h5 = attrs_set g ''naming_authority'' (AStr ''no.unis'') h4
         in and_then (attrs_get h5 g ''creator_name'') (\<lambda>cn.
         let h6 = attrs_set g ''creator_institution'' cn h5
         in and_then (attrs_get h6 g ''creator_name'') (\<lambda>cn2.
         let h7 = attrs_set g ''publisher_name'' cn2 h6;
             h8 = attrs_set g ''creator_email'' (AStr ''datahjelp@imr.no'') h7
         in and_then (attrs_get h8 g ''creator_email'') (\<lambda>ce.
         let h9 = attrs_set g ''publisher_email'' ce h8
         in and_then (attrs_get h9 g ''creator_url'') (\<lambda>cu.
         let h10 = attrs_set g ''publisher_url'' cu h9
         in del_all g unwanted_atts h10))))))))"

subsection \<open>Child\_NetCDF\_File\<close>

record child_file =
  position :: nat
  parentFile :: parent_file
  latitude :: pyfloat
  longitude :: pyfloat
  lat_string :: string
  lon_string :: string
  min_pressure :: pyfloat
  max_pressure :: pyfloat
  time :: string
  timestamp_string :: string
  filename :: string

text \<open>
  \<^verbatim>\<open>__init__\<close>. \<^verbatim>\<open>np.datetime_as_string(t, timezone='UTC')\<close> is the ISO text of \<open>t\<close>
  followed by \<^verbatim>\<open>Z\<close>.
\<close>

definition child_init :: "pylib \<Rightarrow> nat \<Rightarrow> parent_file \<Rightarrow> error + child_file" where
  "child_init lib p parent =
     and_then (py_get (latitudes parent) p) (\<lambda>lat.
     and_then (py_get (longitudes parent) p) (\<lambda>lon.
     and_then (py_get (min_pressures parent) p) (\<lambda>pmin.
     and_then (py_get (max_pressures parent) p) (\<lambda>pmax.
     and_then (py_get (times parent) p) (\<lambda>t.
       let lat_s = str_replace ''.'' ''-'' (format_4f lib lat);
           lon_s = str_replace ''.'' ''-'' (format_4f lib lon);
           ts = str_replace '':'' ''-'' (hd (split_on (CHR ''.'') (t @ ''Z''))) @ ''Z''
       in Inr \<lparr> position = p, parentFile = parent,
                latitude = lat, longitude = lon,
                lat_string = lat_s, lon_string = lon_s,
                min_pressure = pmin, max_pressure = pmax,
                time = t, timestamp_string = ts,
                filename = ''Nansen_Legacy_CTD_data_single_station_lat_'' @ lat_s
                  @ ''_lon_'' @ lon_s @ ''_dt_'' @ ts @ ''.nc'' \<rparr>)))))"

text \<open>
  The station dataset: its variables in column order, each with its values along the single
  dimension and the address of its attribute dictionary; the names of the variables that are
  coordinates; and the address of the global attribute dictionary.
\<close>

record column =
  col_values :: "pyfloat list"
  col_attrs :: addr

record child_dataset =
  variables :: "(string \<times> column) list"
  coord_names :: "string list"
  cds_attrs :: addr

text \<open>\<^verbatim>\<open>list(ds.data_vars)\<close>: the variables that are not coordinates.\<close>

definition child_data_vars :: "child_dataset \<Rightarrow> string list" where
  "child_data_vars cds =
     filter (\<lambda>n. n \<notin> set (coord_names cds)) (map fst (variables cds))"

text \<open>\<^verbatim>\<open>ds[name].attrs\<close>, the dictionary object of a variable of the station dataset.\<close>

definition var_attrs_ref :: "child_dataset \<Rightarrow> string \<Rightarrow> error + addr" where
  "var_attrs_ref cds n =
     (case map_of (variables cds) n of
        None \<Rightarrow> Inl (KeyError n)
      | Some col \<Rightarrow> Inr (col_attrs col))"

text \<open>
  \<^verbatim>\<open>ds[name].attrs = d\<close>: the setter stores \<^verbatim>\<open>dict(d)\<close>, a new dictionary object with
  the entries of \<open>d\<close>.
\<close>

definition set_var_attrs ::
    "string \<Rightarrow> attrs \<Rightarrow> child_dataset \<Rightarrow> heap \<Rightarrow> error + (child_dataset \<times> heap)" where
  "set_var_attrs n d cds h =
     (case map_of (variables cds) n of
        None \<Rightarrow> Inl (KeyError n)
      | Some col \<Rightarrow>
          (let (a, h') = alloc d h
           in Inr (cds\<lparr>variables := AList.update n (col\<lparr>col_attrs := a\<rparr>) (variables cds)\<rparr>,
                   h')))"

text \<open>\<^verbatim>\<open>self.contents['PRES'][position]\<close> as a list.\<close>

definition pressure_row :: "dataset \<Rightarrow> nat \<Rightarrow> error + pyfloat list" where
  "pressure_row ds p = and_then (pressure_rows ds) (\<lambda>rs. py_get rs p)"

definition too_many_dims :: "string \<Rightarrow> string" where
  "too_many_dims n =
     ''Not programmed to handle variables with more than 2 dimensions ('' @ n @ '')''"

text \<open>
  The first loop: one data-frame column per two-dimensional variable. The two-dimensional
  variables of an archive lie on one grid of stations and pressure levels, so the columns
  have one length; what the data frame does with columns of different lengths is not
  modelled.
\<close>

fun slice_variables ::
    "(string \<times> variable) list \<Rightarrow> nat \<Rightarrow> nat \<Rightarrow> nat \<Rightarrow> (string \<times> pyfloat list) list
       \<Rightarrow> error + (string \<times> pyfloat list) list" where
  "slice_variables [] p i_min i_max df = Inr df"
| "slice_variables ((n, v) # vs) p i_min i_max df =
     (if length (dims v) = 2 then
        and_then (py_get (rows v) p) (\<lambda>vals.
          slice_variables vs p i_min i_max
            (AList.update n (py_slice vals i_min i_max) df))
      else if length (dims v) > 2 then Inl (SystemExit (too_many_dims n))
      else slice_variables vs p i_min i_max df)"

text \<open>
  \<^verbatim>\<open>xr.Dataset.from_dataframe(df)\<close>: every column becomes a variable with an attribute
  dictionary of its own, empty at first, and the dataset gets an empty global dictionary.
\<close>

fun new_variables ::
    "(string \<times> pyfloat list) list \<Rightarrow> heap \<Rightarrow> (string \<times> column) list \<times> heap" where
  "new_variables [] h = ([], h)"
| "new_variables ((n, vals) # df) h =
     (let (a, h1) = alloc Map.empty h;
          (cols, h2) = new_variables df h1
      in ((n, \<lparr>col_values = vals, col_attrs = a\<rparr>) # cols, h2))"

definition from_dataframe ::
    "(string \<times> pyfloat list) list \<Rightarrow> heap \<Rightarrow> child_dataset \<times> heap" where
  "from_dataframe df h =
     (let (cols, h1) = new_variables df h;
          (g, h2) = alloc Map.empty h1
      in (\<lparr>variables = cols, coord_names = [], cds_attrs = g\<rparr>, h2))"

text \<open>
  \<^verbatim>\<open>set_coords('PRES')\<close>; the following \<^verbatim>\<open>reset_index\<close> and \<^verbatim>\<open>swap_dims\<close> rename
  the single dimension and change neither values nor attributes.
\<close>

definition set_coords :: "string \<Rightarrow> child_dataset \<Rightarrow> error + child_dataset" where
  "set_coords n cds =
     (if n \<in> set (map fst (variables cds))
      then Inr (cds\<lparr>coord_names := coord_names cds @ [n]\<rparr>)
      else Inl ValueError)"

text \<open>
  The guarded rescaling of one bound: \<open>pa\<close> is the parent variable's dictionary, \<open>ca\<close> the
  station variable's.
\<close>

definition scale_bound :: "string \<Rightarrow> addr \<Rightarrow> addr \<Rightarrow> heap \<Rightarrow> error + heap" where
  "scale_bound k pa ca h =
     (if (h ! pa) k \<noteq> None then
        (case (h ! pa) k of
           Some (ANum x) \<Rightarrow> Inr (attrs_set ca k (ANum (mul_float x (Finite 0.001))) h)
         | _ \<Rightarrow> Inl TypeError)
      else Inr h)"

definition copy_variable_attrs ::
    "string \<Rightarrow> variable \<Rightarrow> child_dataset \<Rightarrow> heap \<Rightarrow> error + (child_dataset \<times> heap)" where
  "copy_variable_attrs n v cds h =
     (if length (dims v) = 2 then
        and_then (set_var_attrs n (h ! attrs_ref v) cds h) (\<lambda>(cds1, h1).
          if \<not> contains ''QC'' n then
            if \<not> contains ''DM'' n then
              and_then (var_attrs_ref cds1 n) (\<lambda>ca.
                let h2 = attrs_set ca ''coverage_content_type''
                           (AStr ''physicalMeasurement'') h1
                in and_then (scale_bound ''valid_min'' (attrs_ref v) ca h2) (\<lambda>h3.
                   and_then (scale_bound ''valid_max'' (attrs_ref v) ca h3) (\<lambda>h4.
                     Inr (cds1, h4))))
            else Inr (cds1, h1)
          else Inr (cds1, h1))
      else if length (dims v) > 2 then Inl (SystemExit (too_many_dims n))
      else Inr (cds, h))"

text \<open>
  The loop over the referenced names inside \<^verbatim>\<open>try\<close>: an exception ends the loop and is
  swallowed, and what was already written stays written.
\<close>

fun strip_ancillary ::
    "string list \<Rightarrow> string \<Rightarrow> child_dataset \<Rightarrow> string list \<Rightarrow> heap \<Rightarrow> heap" where
  "strip_ancillary names n cds [] h = h"
| "strip_ancillary names n cds (av # avs) h =
     (if av \<notin> set names then
        (case var_attrs_ref cds n of
           Inl e \<Rightarrow> h
         | Inr ca \<Rightarrow>
             (case (h ! ca) ''ancillary_variables'' of
                Some (AStr s) \<Rightarrow>
                  strip_ancillary names n cds avs
                    (attrs_set ca ''ancillary_variables'' (AStr (str_replace av [] s)) h)
              | _ \<Rightarrow> h))
      else strip_ancillary names n cds avs h)"

definition repair_ancillary ::
    "string list \<Rightarrow> string \<Rightarrow> variable \<Rightarrow> child_dataset \<Rightarrow> heap \<Rightarrow> heap" where
  "repair_ancillary names n v cds h =
     (case (h ! attrs_ref v) ''ancillary_variables'' of
        Some (AStr s) \<Rightarrow> strip_ancillary names n cds (split_on (CHR '' '') s) h
      | _ \<Rightarrow> h)"

text \<open>The second loop, over all data variables of the parent.\<close>

fun repair_attributes ::
    "string list \<Rightarrow> (string \<times> variable) list \<Rightarrow> child_dataset \<Rightarrow> heap
       \<Rightarrow> error + (child_dataset \<times> heap)" where
  "repair_attributes names [] cds h = Inr (cds, h)"
| "repair_attributes names ((n, v) # vs) cds h =
     and_then (copy_variable_attrs n v cds h) (\<lambda>(cds1, h1).
       repair_attributes names vs cds1 (repair_ancillary names n v cds1 h1))"

definition create_dataset_with_variables ::
    "child_file \<Rightarrow> heap \<Rightarrow> error + (child_dataset \<times> heap)" where
  "create_dataset_with_variables c h =
     (let ds = contents (parentFile c) in
      and_then (pressure_row ds (position c)) (\<lambda>pressures.
      and_then (py_index pressures (min_pressure c)) (\<lambda>i_min.
      and_then (py_index pressures (max_pressure c)) (\<lambda>i_max.
      and_then (slice_variables (data_vars ds) (position c) i_min i_max []) (\<lambda>df.
        let (cds0, h0) = from_dataframe df h in
        and_then (set_coords ''PRES'' cds0) (\<lambda>cds1.
          repair_attributes (map fst (data_vars ds)) (data_vars ds) cds1 h0))))))"

text \<open>Several plain assignments \<^verbatim>\<open>d[k] = v\<close> in a row.\<close>

fun attrs_set_all :: "addr \<Rightarrow> (string \<times> attr_value) list \<Rightarrow> heap \<Rightarrow> heap" where
  "attrs_set_all a [] h = h"
| "attrs_set_all a ((k, v) # kvs) h = attrs_set_all a kvs (attrs_set a k v h)"

text \<open>
  \<open>dtnow\<close> is the formatted wall-clock time. The station's global dictionary is a copy of
  the parent's (\<^verbatim>\<open>.copy()\<close>), stored through the dataset's attribute setter.
\<close>

definition assign_global_attributes ::
    "string \<Rightarrow> child_file \<Rightarrow> child_dataset \<Rightarrow> heap \<Rightarrow> error + (child_dataset \<times> heap)" where
  "assign_global_attributes dtnow c cds h =
     (let (a0, h0) = alloc (h ! ds_attrs (contents (parentFile c))) h;
          (g, h1) = alloc (h0 ! a0) h0;
          cds1 = cds\<lparr>cds_attrs := g\<rparr>;
          stamp = hd (split_on (CHR ''.'') (time c)) @ ''Z'';
          h2 = attrs_set_all g
                 [(''geospatial_lat_min'', ANum (latitude c)),
                  (''geospatial_lat_max'', ANum (latitude c)),
                  (''geospatial_lon_min'', ANum (longitude c)),
                  (''geospatial_lon_max'', ANum (longitude c)),
                  (''geospatial_vertical_min'', ANum (min_pressure c)),
                  (''geospatial_vertical_max'', ANum (max_pressure c)),
                  (''geospatial_vertical_units'', AStr ''dbar''),
                  (''geospatial_vertical_resolution'', AStr ''1 dbar''),
                  (''time_coverage_start'', AStr stamp),
                  (''time_coverage_end'', AStr stamp),
                  (''date_created'', AStr dtnow),
                  (''date_update'', AStr dtnow),
                  (''history'', AStr (''Created at '' @ dtnow
                                      @ '' using the xarray library in Python''))] h1
      in and_then (attrs_get_str h2 g ''id'') (\<lambda>ident.
         let h3 = attrs_set g ''id''
                    (AStr (ident @ ''_'' @ lat_string c @ ''_'' @ lon_string c)) h2;
             h4 = attrs_set g ''title'' (AStr (hd (split_on (CHR ''.'') (filename c)))) h3
         in and_then (attrs_del g ''doi'' h4) (\<lambda>h5.
              Inr (cds1, attrs_set g ''comment'' (AStr ''Descending CTD profile'') h5))))"

subsection \<open>Writing a station file\<close>

datatype fill_value = NoFill | FillStr string | FillInt int

record encoding =
  dtype :: string
  FillValue :: fill_value

text \<open>
  The loop over the data variables of the station dataset. A data-mode variable has its
  \<^verbatim>\<open>flag_values\<close> attribute rewritten in place.
\<close>

fun encode_variables ::
    "string list \<Rightarrow> child_dataset \<Rightarrow> (string \<times> encoding) list \<Rightarrow> heap
       \<Rightarrow> error + ((string \<times> encoding) list \<times> heap)" where
  "encode_variables [] cds enc h = Inr (enc, h)"
| "encode_variables (n # ns) cds enc h =
     (if n = ''PRES'' then
        encode_variables ns cds
          (AList.update n \<lparr>dtype = ''float32'', FillValue = NoFill\<rparr> enc) h
      else if contains ''DM'' n then
        and_then (var_attrs_ref cds n) (\<lambda>a.
        and_then (attrs_get h a ''flag_values'') (\<lambda>fv.
          case fv of
            AStr s \<Rightarrow>
              encode_variables ns cds
                (AList.update n \<lparr>dtype = ''S1'', FillValue = FillStr '' ''\<rparr> enc)
                (attrs_set a ''flag_values''
                   (AArr (split_on (CHR '','') (str_replace '' '' [] s))) h)
          | _ \<Rightarrow> Inl AttributeError))
      else if contains ''QC'' n then
        encode_variables ns cds
          (AList.update n \<lparr>dtype = ''int8'', FillValue = FillInt (- 127)\<rparr> enc) h
      else
        encode_variables ns cds
          (AList.update n \<lparr>dtype = ''float32'', FillValue = FillInt (- 2147483647)\<rparr> enc) h)"

text \<open>What \<^verbatim>\<open>to_netcdf\<close> is given: the path, the dataset and the encoding.\<close>

record written_file =
  path :: string
  file_contents :: child_dataset
  file_encoding :: "(string \<times> encoding) list"

definition output_to_netcdf ::
    "child_file \<Rightarrow> child_dataset \<Rightarrow> heap \<Rightarrow> error + (written_file \<times> heap)" where
  "output_to_netcdf c cds h =
     and_then (encode_variables (child_data_vars cds) cds [] h) (\<lambda>(enc, h1).
     and_then (attrs_get_str h1 (ds_attrs (contents (parentFile c))) ''id'') (\<lambda>subdir.
       Inr (\<lparr>path = subdir @ ''/'' @ filename c, file_contents = cds, file_encoding = enc\<rparr>,
            h1)))"

subsection \<open>The main loop\<close>

text \<open>The body of the loop over the stations of one archive.\<close>

definition make_station ::
    "pylib \<Rightarrow> string \<Rightarrow> parent_file \<Rightarrow> nat \<Rightarrow> heap \<Rightarrow> error + (written_file \<times> heap)" where
  "make_station lib dtnow parent p h =
     and_then (child_init lib p parent) (\<lambda>c.
     and_then (create_dataset_with_variables c h) (\<lambda>(cds1, h1).
     and_then (assign_global_attributes dtnow c cds1 h1) (\<lambda>(cds2, h2).
       output_to_netcdf c cds2 h2)))"

text \<open>
  The loop itself. It returns the files written so far together with either the error that
  stopped the run or the final store. \<open>clock p\<close> is the formatted time at which station \<open>p\<close>
  is handled.
\<close>

fun station_loop ::
    "pylib \<Rightarrow> (nat \<Rightarrow> string) \<Rightarrow> parent_file \<Rightarrow> nat list \<Rightarrow> written_file list \<Rightarrow> heap
       \<Rightarrow> written_file list \<times> (error + heap)" where
  "station_loop lib clock parent [] files h = (files, Inr h)"
| "station_loop lib clock parent (p # ps) files h =
     (case make_station lib (clock p) parent p h of
        Inl e \<Rightarrow> (files, Inl e)
      | Inr (f, h') \<Rightarrow> station_loop lib clock parent ps (files @ [f]) h')"

text \<open>
  What the archive loop keeps of an opened archive for the station loop: the coordinate
  values and the pressure bounds of every station.
\<close>

definition prepare_parent :: "dataset \<Rightarrow> error + parent_file" where
  "prepare_parent ds =
     (let (lats, lons, ts) = get_coordinate_variables_values ds
      in and_then (get_min_max_pressures ds) (\<lambda>(mins, maxs).
           Inr \<lparr>contents = ds, latitudes = lats, longitudes = lons, times = ts,
                min_pressures = mins, max_pressures = maxs\<rparr>))"

text \<open>The body of the loop over the archives, once an archive is opened.\<close>

definition split_archive ::
    "pylib \<Rightarrow> (nat \<Rightarrow> string) \<Rightarrow> dataset \<Rightarrow> heap \<Rightarrow> written_file list \<times> (error + heap)" where
  "split_archive lib clock ds h =
     (case add_change_drop_gloabl_attributes lib ds h of
        Inl e \<Rightarrow> ([], Inl e)
      | Inr h1 \<Rightarrow>
          (case prepare_parent ds of
             Inl e \<Rightarrow> ([], Inl e)
           | Inr parent \<Rightarrow> station_loop lib clock parent (POSITION ds) [] h1))"

text \<open>
  \<^verbatim>\<open>main\<close>: every directory entry is opened (\<open>None\<close> when it cannot be) and split; the run
  stops at the first error.
\<close>

fun main ::
    "pylib \<Rightarrow> (nat \<Rightarrow> string) \<Rightarrow> dataset option list \<Rightarrow> written_file list \<Rightarrow> heap
       \<Rightarrow> written_file list \<times> (error + heap)" where
  "main lib clock [] files h = (files, Inr h)"
| "main lib clock (None # rest) files h = (files, Inl (SystemExit ''File not found''))"
| "main lib clock (Some ds # rest) files h =
     (case split_archive lib clock ds h of
        (fs, Inl e) \<Rightarrow> (files @ fs, Inl e)
      | (fs, Inr h') \<Rightarrow> main lib clock rest (files @ fs) h')"

subsection \<open>Vocabulary of the properties\<close>

text \<open>
  The variables that are carried over to a station: the two-dimensional data variables, in
  file order; and their slices for station \<open>p\<close> and window \<open>[i, j)\<close>.
\<close>

definition two_dim :: "(string \<times> variable) list \<Rightarrow> (string \<times> variable) list" where
  "two_dim vs = filter (\<lambda>(n, v). length (dims v) = 2) vs"

definition station_slices ::
    "(string \<times> variable) list \<Rightarrow> nat \<Rightarrow> nat \<Rightarrow> nat \<Rightarrow> (string \<times> pyfloat list) list" where
  "station_slices vs p i j = map (\<lambda>(n, v). (n, py_slice (rows v ! p) i j)) (two_dim vs)"

text \<open>
  An archive lives in a store: its variable names are dictionary keys, hence distinct, and
  its dictionaries are objects of the store.
\<close>

definition wf_archive :: "dataset \<Rightarrow> heap \<Rightarrow> bool" where
  "wf_archive ds h \<longleftrightarrow>
     distinct (map fst (data_vars ds)) \<and> ds_attrs ds < length h
     \<and> (\<forall>(n, v) \<in> set (data_vars ds). attrs_ref v < length h)"

text \<open>A bound that is absent or a number can be rescaled.\<close>

definition bound_is_number :: "attrs \<Rightarrow> string \<Rightarrow> bool" where
  "bound_is_number d k = (case d k of None \<Rightarrow> True | Some (ANum x) \<Rightarrow> True | Some _ \<Rightarrow> False)"

text \<open>
  The attribute dictionary of a station variable as a function of the parent variable's
  dictionary \<open>pd\<close>: the copy with rescaled bounds, and then with the references removed.
\<close>

definition scale_entry :: "string \<Rightarrow> attrs \<Rightarrow> attrs \<Rightarrow> error + attrs" where
  "scale_entry k pd cd =
     (if pd k \<noteq> None then
        (case pd k of
           Some (ANum x) \<Rightarrow> Inr (cd(k \<mapsto> ANum (mul_float x (Finite 0.001))))
         | _ \<Rightarrow> Inl TypeError)
      else Inr cd)"

definition copied_attrs :: "string \<Rightarrow> attrs \<Rightarrow> error + attrs" where
  "copied_attrs n pd =
     (if \<not> contains ''QC'' n \<and> \<not> contains ''DM'' n then
        and_then (scale_entry ''valid_min'' pd
                    (pd(''coverage_content_type'' \<mapsto> AStr ''physicalMeasurement'')))
          (scale_entry ''valid_max'' pd)
      else Inr pd)"

fun strip_tokens :: "string list \<Rightarrow> string list \<Rightarrow> attrs \<Rightarrow> attrs" where
  "strip_tokens names [] d = d"
| "strip_tokens names (av # avs) d =
     (if av \<notin> set names then
        (case d ''ancillary_variables'' of
           Some (AStr s) \<Rightarrow>
             strip_tokens names avs (d(''ancillary_variables'' \<mapsto> AStr (str_replace av [] s)))
         | _ \<Rightarrow> d)
      else strip_tokens names avs d)"

definition stripped :: "string list \<Rightarrow> attrs \<Rightarrow> attrs \<Rightarrow> attrs" where
  "stripped names pd d =
     (case pd ''ancillary_variables'' of
        Some (AStr s) \<Rightarrow> strip_tokens names (split_on (CHR '' '') s) d
      | _ \<Rightarrow> d)"


text \<open>The numbers of a row, in order: its cells that are not NaN.\<close>

fun numbers :: "pyfloat list \<Rightarrow> real list" where
  "numbers [] = []"
| "numbers (Finite a # xs) = a # numbers xs"
| "numbers (NaN # xs) = numbers xs"

text \<open>
  The variables that the writing step treats as data-mode variables, the array that replaces
  the \<^verbatim>\<open>flag_values\<close> text \<open>s\<close> of such a variable, and the encoding that the loop
  assigns to a name.
\<close>

definition data_mode :: "string \<Rightarrow> bool" where
  "data_mode n \<longleftrightarrow> n \<noteq> ''PRES'' \<and> contains ''DM'' n"

definition flag_tokens :: "string \<Rightarrow> string list" where
  "flag_tokens s = split_on (CHR '','') (str_replace '' '' [] s)"

definition encoding_of :: "string \<Rightarrow> encoding" where
  "encoding_of n =
     (if n = ''PRES'' then \<lparr>dtype = ''float32'', FillValue = NoFill\<rparr>
      else if contains ''DM'' n then \<lparr>dtype = ''S1'', FillValue = FillStr '' ''\<rparr>
      else if contains ''QC'' n then \<lparr>dtype = ''int8'', FillValue = FillInt (- 127)\<rparr>
      else \<lparr>dtype = ''float32'', FillValue = FillInt (- 2147483647)\<rparr>)"

text \<open>
  What a station needs for being built and written from the store \<open>h\<close>: coordinates, a
  pressure row whose first cell is a number, no variable with more than two dimensions, a
  row for the station in every two-dimensional variable, a textual \<^verbatim>\<open>flag_values\<close> on every
  data-mode variable, numeric bounds where bounds are rescaled, and the global attributes
  \<^verbatim>\<open>id\<close> (a text) and \<^verbatim>\<open>doi\<close>.
\<close>

fun is_text :: "attr_value option \<Rightarrow> bool" where
  "is_text (Some (AStr s)) = True"
| "is_text x = False"

fun first_is_number :: "error + pyfloat list \<Rightarrow> bool" where
  "first_is_number (Inr (Finite a # rest)) = True"
| "first_is_number r = False"

definition station_ready :: "dataset \<Rightarrow> heap \<Rightarrow> nat \<Rightarrow> bool" where
  "station_ready ds h p \<longleftrightarrow>
     p < length (LATITUDE ds) \<and> p < length (LONGITUDE ds) \<and> p < length (TIME ds)
   \<and> first_is_number (pressure_row ds p)
   \<and> (\<forall>(n, v) \<in> set (data_vars ds). length (dims v) \<le> 2
         \<and> (length (dims v) = 2 \<longrightarrow> p < length (rows v)
               \<and> (data_mode n \<longrightarrow> is_text ((h ! attrs_ref v) ''flag_values''))
               \<and> (\<not> contains ''QC'' n \<and> \<not> contains ''DM'' n \<longrightarrow>
                    bound_is_number (h ! attrs_ref v) ''valid_min''
                    \<and> bound_is_number (h ! attrs_ref v) ''valid_max'')))
   \<and> is_text ((h ! ds_attrs ds) ''id'')
   \<and> (h ! ds_attrs ds) ''doi'' \<noteq> None"

text \<open>The global attributes that the loop assigns or deletes in a station dataset.\<close>

definition station_global_keys :: "string list" where
  "station_global_keys =
     [''geospatial_lat_min'', ''geospatial_lat_max'', ''geospatial_lon_min'',
      ''geospatial_lon_max'', ''geospatial_vertical_min'', ''geospatial_vertical_max'',
      ''geospatial_vertical_units'', ''geospatial_vertical_resolution'',
      ''time_coverage_start'', ''time_coverage_end'', ''date_created'', ''date_update'',
      ''history'', ''id'', ''title'', ''doi'', ''comment'']"

subsection \<open>Sample inputs\<close>

definition sample_lib :: pylib where
  "sample_lib = \<lparr>format_4f = (\<lambda>x. ''78.3517''), str_of_value = (\<lambda>v. ''?'')\<rparr>"

definition sample_clock :: "nat \<Rightarrow> string" where
  "sample_clock p = ''2022-02-15T14:06:27Z''"

text \<open>An archive whose global attributes lack \<^verbatim>\<open>doi\<close>.\<close>

definition no_doi_heap :: heap where
  "no_doi_heap = [[''id'' \<mapsto> AStr ''AR58'', ''summary'' \<mapsto> AStr ''CTD data.'']]"

definition no_doi_archive :: dataset where
  "no_doi_archive =
     \<lparr>data_vars = [], LATITUDE = [Finite 78.3517], LONGITUDE = [Finite 34.7638],
      TIME = [''2020-10-20T07:35:31.000000000''], POSITION = [0], ds_attrs = 0\<rparr>"


definition sample_globals :: attrs where
  "sample_globals =
     [''id'' \<mapsto> AStr ''AR_PR_CT_58GS_2020113'', ''doi'' \<mapsto> AStr ''10.21335/NMDC-1'',
      ''summary'' \<mapsto> AStr ''CTD data.'', ''creator_name'' \<mapsto> AStr ''IMR'',
      ''creator_url'' \<mapsto> AStr ''https://www.hi.no'',
      ''last_latitude_observation'' \<mapsto> ANum (Finite 78),
      ''last_longitude_observation'' \<mapsto> ANum (Finite 34),
      ''format_version'' \<mapsto> AStr ''1.0'', ''last_date_observation'' \<mapsto> AStr ''2020-10-21'']"

definition pres_attrs :: attrs where
  "pres_attrs = [''valid_min'' \<mapsto> ANum (Finite 0), ''valid_max'' \<mapsto> ANum (Finite 12000000)]"

definition temp_attrs :: attrs where
  "temp_attrs =
     [''valid_min'' \<mapsto> ANum (Finite (- 2500)), ''valid_max'' \<mapsto> ANum (Finite 40000),
      ''ancillary_variables'' \<mapsto> AStr ''TEMP_QC BOT_DEPTH TEMP_ERR'']"

definition temp_qc_attrs :: attrs where
  "temp_qc_attrs = [''valid_min'' \<mapsto> ANum (Finite 0), ''valid_max'' \<mapsto> ANum (Finite 9)]"

text \<open>The flags of the data mode are separated by a comma and a blank or a tabulator.\<close>

definition pres_dm_attrs :: attrs where
  "pres_dm_attrs = [''flag_values'' \<mapsto> AStr (''R, A,'' @ [CHR 0x09] @ ''D'')]"

definition bot_depth_attrs :: attrs where
  "bot_depth_attrs = [''units'' \<mapsto> AStr ''m'']"

definition sample_heap :: heap where
  "sample_heap =
     [sample_globals, pres_attrs, temp_attrs, temp_qc_attrs, pres_dm_attrs, bot_depth_attrs]"

text \<open>
  Three stations on five pressure levels. No station has populated the last level; the
  third one is stored from the bottom up.
\<close>

definition sample_pressures :: "pyfloat list list" where
  "sample_pressures =
     [[Finite 0, Finite 10, Finite 20, Finite 30, NaN],
      [Finite 5, Finite 15, Finite 25, Finite 35, NaN],
      [Finite 30, Finite 20, Finite 10, Finite 0, NaN]]"

definition sample_archive :: dataset where
  "sample_archive =
     \<lparr>data_vars =
        [(''PRES'', \<lparr>dims = [''POSITION'', ''PRES_LEVEL''],
                     rows = sample_pressures, attrs_ref = 1\<rparr>),
         (''TEMP'', \<lparr>dims = [''POSITION'', ''PRES_LEVEL''],
                     rows = [[Finite 1, Finite 2, Finite 3, Finite 4, NaN],
                             [Finite 5, Finite 6, Finite 7, Finite 8, NaN],
                             [Finite 4, Finite 3, Finite 2, Finite 1, NaN]], attrs_ref = 2\<rparr>),
         (''TEMP_QC'', \<lparr>dims = [''POSITION'', ''PRES_LEVEL''],
                        rows = [[Finite 1, Finite 1, Finite 1, Finite 1, NaN],
                             [Finite 1, Finite 1, Finite 4, Finite 1, NaN],
                             [Finite 1, Finite 1, Finite 1, Finite 1, NaN]], attrs_ref = 3\<rparr>),
         (''PRES_DM'', \<lparr>dims = [''POSITION'', ''PRES_LEVEL''],
                        rows = [[Finite 82, Finite 82, Finite 82, Finite 82, NaN],
                             [Finite 82, Finite 82, Finite 82, Finite 82, NaN],
                             [Finite 82, Finite 82, Finite 82, Finite 82, NaN]],
                        attrs_ref = 4\<rparr>),
         (''BOT_DEPTH'', \<lparr>dims = [''POSITION''],
                          rows = [[Finite 320], [Finite 150], [Finite 210]],
                          attrs_ref = 5\<rparr>)],
      LATITUDE = map Finite [78.3517, 79, 80], LONGITUDE = map Finite [34.7638, 35, 36],
      TIME = [''2020-10-20T07:35:31.000000000'', ''2020-10-21T07:35:31.000000000'',
              ''2020-10-22T07:35:31.000000000''],
      POSITION = [0, 1, 2], ds_attrs = 0\<rparr>"

text \<open>An archive with a three-dimensional variable. Its values are not read.\<close>

definition deep_archive :: dataset where
  "deep_archive =
     \<lparr>data_vars =
        [(''PRES'', \<lparr>dims = [''POSITION'', ''PRES_LEVEL''],
                     rows = sample_pressures, attrs_ref = 1\<rparr>),
         (''BOT_DEPTH'', \<lparr>dims = [''POSITION''],
                          rows = [[Finite 320], [Finite 150], [Finite 210]],
                          attrs_ref = 5\<rparr>),
         (''SPECTRUM'', \<lparr>dims = [''POSITION'', ''PRES_LEVEL'', ''BAND''],
                         rows = [], attrs_ref = 2\<rparr>),
         (''TEMP_QC'', \<lparr>dims = [''POSITION'', ''PRES_LEVEL''],
                        rows = [[Finite 1, Finite 1, Finite 1, Finite 1, NaN],
                                [Finite 1, Finite 1, Finite 4, Finite 1, NaN],
                                [Finite 1, Finite 1, Finite 1, Finite 1, NaN]],
                        attrs_ref = 3\<rparr>)],
      LATITUDE = map Finite [78.3517, 79, 80], LONGITUDE = map Finite [34.7638, 35, 36],
      TIME = [''2020-10-20T07:35:31.000000000'', ''2020-10-21T07:35:31.000000000'',
              ''2020-10-22T07:35:31.000000000''],
      POSITION = [0, 1, 2], ds_attrs = 0\<rparr>"

section \<open>Properties\<close>

subsection \<open>Sequencing and the store\<close>

lemma and_then_Inl [simp]: "and_then (Inl e) f = Inl e"
  by (simp add: and_then_def)

lemma and_then_Inr [simp]: "and_then (Inr x) f = f x"
  by (simp add: and_then_def)

lemma and_then_eq_Inr: "and_then m f = Inr y \<longleftrightarrow> (\<exists>x. m = Inr x \<and> f x = Inr y)"
  by (cases m) simp_all

lemma and_then_eq_Inl:
  "and_then m f = Inl e \<longleftrightarrow> m = Inl e \<or> (\<exists>x. m = Inr x \<and> f x = Inl e)"
  by (cases m) simp_all

lemma attrs_set_length [simp]: "length (attrs_set a k v h) = length h"
  by (simp add: attrs_set_def)

lemma attrs_set_other [simp]: "b \<noteq> a \<Longrightarrow> attrs_set a k v h ! b = h ! b"
  by (simp add: attrs_set_def)

lemma attrs_set_lookup_other [simp]:
  "k' \<noteq> k \<Longrightarrow> (attrs_set a k v h ! b) k' = (h ! b) k'"
  by (cases "a < length h"; cases "b = a") (simp_all add: attrs_set_def list_update_beyond)

lemma attrs_set_lookup_same:
  "a < length h \<Longrightarrow> (attrs_set a k v h ! a) k = Some v"
  by (simp add: attrs_set_def)

lemma attrs_get_eq_Inr [simp]: "attrs_get h a k = Inr v \<longleftrightarrow> (h ! a) k = Some v"
  by (simp add: attrs_get_def split: option.splits)

lemma attrs_get_str_eq_Inr [simp]:
  "attrs_get_str h a k = Inr s \<longleftrightarrow> (h ! a) k = Some (AStr s)"
  by (auto simp: attrs_get_str_def attrs_get_def
           split: option.splits sum.splits attr_value.splits)

lemma attrs_del_eq_Inr:
  "attrs_del a k h = Inr h' \<longleftrightarrow> (h ! a) k \<noteq> None \<and> h' = h[a := (h ! a)(k := None)]"
  by (auto simp: attrs_del_def split: option.splits)

lemma attrs_del_lookup_other:
  "attrs_del a k h = Inr h' \<Longrightarrow> k' \<noteq> k \<Longrightarrow> (h' ! b) k' = (h ! b) k'"
  by (cases "a < length h"; cases "b = a") (auto simp: attrs_del_eq_Inr list_update_beyond)

subsection \<open>The repair of the global attributes needs its inputs\<close>

lemma del_all_present:
  "del_all a ks h = Inr h' \<Longrightarrow> k \<in> set ks \<Longrightarrow> (h ! a) k \<noteq> None"
proof (induction ks arbitrary: h)
  case Nil
  then show ?case by simp
next
  case (Cons k' ks)
  from Cons.prems(1) obtain h1
    where d: "attrs_del a k' h = Inr h1" and r: "del_all a ks h1 = Inr h'"
    by (auto simp: and_then_eq_Inr)
  show ?case
  proof (cases "k = k'")
    case True
    with d show ?thesis by (simp add: attrs_del_eq_Inr)
  next
    case False
    with Cons.prems(2) have "k \<in> set ks" by simp
    from Cons.IH[OF r this] have "(h1 ! a) k \<noteq> None" .
    with attrs_del_lookup_other[OF d False] show ?thesis by simp
  qed
qed

lemma repair_needs_globals:
  assumes "add_change_drop_gloabl_attributes lib ds h = Inr h'"
      and "k \<in> set [''doi'', ''creator_name'', ''creator_url'',
              ''last_latitude_observation'', ''last_longitude_observation'',
              ''format_version'', ''last_date_observation'']"
  shows "(h ! ds_attrs ds) k \<noteq> None"
proof -
  from assms(1) obtain h10 where
    doi: "(h ! ds_attrs ds) ''doi'' \<noteq> None" and
    cn: "(h ! ds_attrs ds) ''creator_name'' \<noteq> None" and
    cu: "(h ! ds_attrs ds) ''creator_url'' \<noteq> None" and
    d: "del_all (ds_attrs ds) unwanted_atts h10 = Inr h'" and
    same: "\<And>k. k \<in> set unwanted_atts \<Longrightarrow> (h10 ! ds_attrs ds) k = (h ! ds_attrs ds) k"
    unfolding add_change_drop_gloabl_attributes_def Let_def and_then_eq_Inr
    by (fastforce simp: unwanted_atts_def)
  have "\<And>k. k \<in> set unwanted_atts \<Longrightarrow> (h ! ds_attrs ds) k \<noteq> None"
    using del_all_present[OF d] same by simp
  with doi cn cu assms(2) show ?thesis
    by (auto simp: unwanted_atts_def)
qed

text \<open>
  Claim C5. When one of the global attributes that the repair reads (\<^verbatim>\<open>doi\<close>,
  \<^verbatim>\<open>creator_name\<close>, \<^verbatim>\<open>creator_url\<close>) or deletes (the four unwanted attributes) is
  absent from the parent archive, the repair raises, splitting that archive ends with this
  error and no station file, and the whole run stops there with no file added.
\<close>

theorem missing_global_attribute_aborts:
  assumes "k \<in> set [''doi'', ''creator_name'', ''creator_url'',
              ''last_latitude_observation'', ''last_longitude_observation'',
              ''format_version'', ''last_date_observation'']"
      and "(h ! ds_attrs ds) k = None"
  shows "\<exists>e. add_change_drop_gloabl_attributes lib ds h = Inl e
           \<and> split_archive lib clock ds h = ([], Inl e)
           \<and> main lib clock (Some ds # rest) files h = (files, Inl e)"
proof (cases "add_change_drop_gloabl_attributes lib ds h")
  case (Inl e)
  then show ?thesis by (simp add: split_archive_def)
next
  case (Inr h')
  from repair_needs_globals[OF Inr assms(1)] assms(2) show ?thesis by simp
qed

theorem missing_global_attribute_aborts_witness:
  "''doi'' \<in> set [''doi'', ''creator_name'', ''creator_url'',
              ''last_latitude_observation'', ''last_longitude_observation'',
              ''format_version'', ''last_date_observation'']
   \<and> (no_doi_heap ! ds_attrs no_doi_archive) ''doi'' = None
   \<and> (\<exists>e. add_change_drop_gloabl_attributes sample_lib no_doi_archive no_doi_heap = Inl e
           \<and> split_archive sample_lib sample_clock no_doi_archive no_doi_heap = ([], Inl e)
           \<and> main sample_lib sample_clock [Some no_doi_archive] [] no_doi_heap = ([], Inl e))"
proof -
  have k: "''doi'' \<in> set [''doi'', ''creator_name'', ''creator_url'',
              ''last_latitude_observation'', ''last_longitude_observation'',
              ''format_version'', ''last_date_observation'']"
    by simp
  have a: "(no_doi_heap ! ds_attrs no_doi_archive) ''doi'' = None"
    by (simp add: no_doi_heap_def no_doi_archive_def)
  from missing_global_attribute_aborts[OF k a, of sample_lib sample_clock "[]" "[]"] k a
  show ?thesis by blast
qed

subsection \<open>Building the station dataset\<close>

lemma eq_float_Finite [simp]: "eq_float x (Finite a) \<longleftrightarrow> x = Finite a"
  by (cases x) auto

lemma eq_float_NaN [simp]: "\<not> eq_float x NaN"
  by (cases x) auto

lemma eq_float_iff: "eq_float x y \<longleftrightarrow> x = y \<and> y \<noteq> NaN"
  by (cases y) auto

lemma numbers_member: "a \<in> set (numbers xs) \<longleftrightarrow> Finite a \<in> set xs"
  by (induction xs rule: numbers.induct) auto

lemma py_min_fold_NaN: "foldl (\<lambda>m y. if less_float y m then y else m) NaN xs = NaN"
  by (induction xs) auto

lemma py_max_fold_NaN: "foldl (\<lambda>m y. if less_float m y then y else m) NaN xs = NaN"
  by (induction xs) auto

lemma py_min_fold:
  "foldl (\<lambda>m y. if less_float y m then y else m) (Finite a) xs
     = Finite (Min (set (a # numbers xs)))"
proof (induction xs arbitrary: a)
  case Nil
  then show ?case by simp
next
  case (Cons x xs)
  show ?case
  proof (cases x)
    case (Finite b)
    let ?c = "if b < a then b else a"
    have step: "foldl (\<lambda>m y. if less_float y m then y else m) (Finite a) (x # xs)
                  = foldl (\<lambda>m y. if less_float y m then y else m) (Finite ?c) xs"
      using Finite by simp
    have "Min (set (a # b # numbers xs)) = Min (set (?c # numbers xs))"
      by (cases "numbers xs") (auto simp: min_def)
    with Finite have eq: "Min (set (a # numbers (x # xs))) = Min (set (?c # numbers xs))"
      by simp
    show ?thesis by (simp only: step Cons.IH[of ?c] eq)
  next
    case NaN
    with Cons.IH[of a] show ?thesis by simp
  qed
qed

lemma py_max_fold:
  "foldl (\<lambda>m y. if less_float m y then y else m) (Finite a) xs
     = Finite (Max (set (a # numbers xs)))"
proof (induction xs arbitrary: a)
  case Nil
  then show ?case by simp
next
  case (Cons x xs)
  show ?case
  proof (cases x)
    case (Finite b)
    let ?c = "if a < b then b else a"
    have step: "foldl (\<lambda>m y. if less_float m y then y else m) (Finite a) (x # xs)
                  = foldl (\<lambda>m y. if less_float m y then y else m) (Finite ?c) xs"
      using Finite by simp
    have "Max (set (a # b # numbers xs)) = Max (set (?c # numbers xs))"
      by (cases "numbers xs") (auto simp: max_def)
    with Finite have eq: "Max (set (a # numbers (x # xs))) = Max (set (?c # numbers xs))"
      by simp
    show ?thesis by (simp only: step Cons.IH[of ?c] eq)
  next
    case NaN
    with Cons.IH[of a] show ?thesis by simp
  qed
qed

text \<open>
  The extremes of a row. When the first cell is NaN, no comparison replaces it; otherwise
  the cells that are NaN are passed over and the result is the least (greatest) number.
\<close>

lemma py_min_Finite:
  "py_min (Finite a # xs) = Inr (Finite (Min (set (numbers (Finite a # xs)))))"
  by (simp add: py_min_fold del: set_simps)

lemma py_max_Finite:
  "py_max (Finite a # xs) = Inr (Finite (Max (set (numbers (Finite a # xs)))))"
  by (simp add: py_max_fold del: set_simps)

lemma py_min_NaN: "py_min (NaN # xs) = Inr NaN"
  by (simp add: py_min_fold_NaN)

lemma py_max_NaN: "py_max (NaN # xs) = Inr NaN"
  by (simp add: py_max_fold_NaN)

lemma py_min_succeeds: "xs \<noteq> [] \<Longrightarrow> \<exists>m. py_min xs = Inr m"
  by (cases xs) simp_all

lemma py_max_succeeds: "xs \<noteq> [] \<Longrightarrow> \<exists>m. py_max xs = Inr m"
  by (cases xs) simp_all

lemma py_min_nonempty: "py_min xs = Inr m \<Longrightarrow> xs \<noteq> []"
  by (cases xs) simp_all

lemma py_index_eq_Inr:
  "py_index xs v = Inr i \<longleftrightarrow>
     i < length xs \<and> eq_float (xs ! i) v \<and> (\<forall>j<i. \<not> eq_float (xs ! j) v)"
proof (induction xs arbitrary: i)
  case Nil
  then show ?case by simp
next
  case (Cons x xs)
  show ?case
  proof (cases "eq_float x v")
    case True
    then show ?thesis by (cases i) auto
  next
    case False
    show ?thesis
    proof (cases i)
      case 0
      with False show ?thesis by (auto simp: and_then_eq_Inr)
    next
      case (Suc k)
      have "(\<forall>j<Suc k. \<not> eq_float ((x # xs) ! j) v) \<longleftrightarrow> (\<forall>j<k. \<not> eq_float (xs ! j) v)"
        using False by (auto simp: less_Suc_eq_0_disj)
      with False Suc Cons.IH[of k] show ?thesis by (simp add: and_then_eq_Inr)
    qed
  qed
qed

lemma py_index_member: "Finite a \<in> set xs \<Longrightarrow> \<exists>i. py_index xs (Finite a) = Inr i"
  by (induction xs) auto

lemma py_index_NaN: "py_index xs NaN = Inl ValueError"
  by (induction xs) (auto simp: and_then_def)

text \<open>
  The position of an extreme of a row is found exactly when the first cell of the row is a
  number; the extreme is then the least (greatest) number of the row.
\<close>

lemma py_min_found:
  assumes "py_min row = Inr m" and "py_index row m = Inr i"
  shows "m = Finite (Min (set (numbers row)))"
proof (cases row)
  case Nil
  with assms(1) show ?thesis by simp
next
  case (Cons x xs)
  show ?thesis
  proof (cases x)
    case (Finite a)
    with Cons assms(1) show ?thesis by (simp add: py_min_fold del: set_simps)
  next
    case NaN
    with Cons assms(1) have "m = NaN" by (simp add: py_min_fold_NaN)
    with assms(2) show ?thesis by (simp add: py_index_NaN)
  qed
qed

lemma py_max_found:
  assumes "py_max row = Inr m" and "py_index row m = Inr i"
  shows "m = Finite (Max (set (numbers row)))"
proof (cases row)
  case Nil
  with assms(1) show ?thesis by simp
next
  case (Cons x xs)
  show ?thesis
  proof (cases x)
    case (Finite a)
    with Cons assms(1) show ?thesis by (simp add: py_max_fold del: set_simps)
  next
    case NaN
    with Cons assms(1) have "m = NaN" by (simp add: py_max_fold_NaN)
    with assms(2) show ?thesis by (simp add: py_index_NaN)
  qed
qed

lemma py_min_index_succeeds:
  "\<exists>m i. py_min (Finite a # xs) = Inr m \<and> py_index (Finite a # xs) m = Inr i"
proof -
  let ?row = "Finite a # xs"
  have "Min (set (numbers ?row)) \<in> set (numbers ?row)" by (intro Min_in) simp_all
  then have "Finite (Min (set (numbers ?row))) \<in> set ?row" by (simp only: numbers_member)
  from py_index_member[OF this] py_min_Finite[of a xs] show ?thesis by blast
qed

lemma py_max_index_succeeds:
  "\<exists>m i. py_max (Finite a # xs) = Inr m \<and> py_index (Finite a # xs) m = Inr i"
proof -
  let ?row = "Finite a # xs"
  have "Max (set (numbers ?row)) \<in> set (numbers ?row)" by (intro Max_in) simp_all
  then have "Finite (Max (set (numbers ?row))) \<in> set ?row" by (simp only: numbers_member)
  from py_index_member[OF this] py_max_Finite[of a xs] show ?thesis by blast
qed

lemma py_index_first_NaN:
  "py_min (NaN # xs) = Inr m \<Longrightarrow> py_index (NaN # xs) m = Inl ValueError"
  by (simp add: py_min_fold_NaN py_index_NaN del: py_index.simps)

lemma map_result_succeeds:
  "(\<forall>x \<in> set xs. \<exists>y. f x = Inr y) \<Longrightarrow> \<exists>ys. map_result f xs = Inr ys"
  by (induction xs) (auto simp: and_then_def)

lemma map_result_eq_Inr:
  "map_result f xs = Inr ys \<longleftrightarrow> length ys = length xs \<and> (\<forall>i<length xs. f (xs ! i) = Inr (ys ! i))"
proof (induction xs arbitrary: ys)
  case Nil
  then show ?case by auto
next
  case (Cons x xs)
  show ?case
  proof (cases ys)
    case Nil
    then show ?thesis by (auto simp: and_then_eq_Inr)
  next
    case (Cons y ys')
    then show ?thesis
      using Cons.IH[of ys'] by (auto simp: and_then_eq_Inr less_Suc_eq_0_disj)
  qed
qed

lemma and_then_assoc [simp]:
  "and_then (and_then m f) g = and_then m (\<lambda>x. and_then (f x) g)"
  by (cases m) simp_all

lemma attrs_set_fresh [simp]: "attrs_set (length h) k v (h @ [d]) = h @ [d(k \<mapsto> v)]"
  by (simp add: attrs_set_def)

lemma scale_bound_fresh:
  "pa < length h \<Longrightarrow>
   scale_bound k pa (length h) (h @ [d]) =
     and_then (scale_entry k (h ! pa) d) (\<lambda>d'. Inr (h @ [d']))"
  by (auto simp: scale_bound_def scale_entry_def nth_append
           split: option.splits attr_value.splits)

lemma set_var_attrs_col:
  "map_of (variables cds) n = Some col \<Longrightarrow>
   set_var_attrs n d cds h =
     Inr (cds\<lparr>variables := AList.update n (col\<lparr>col_attrs := length h\<rparr>) (variables cds)\<rparr>,
          h @ [d])"
  by (simp add: set_var_attrs_def alloc_def)

lemma set_var_attrs_missing:
  "map_of (variables cds) n = None \<Longrightarrow> set_var_attrs n d cds h = Inl (KeyError n)"
  by (simp add: set_var_attrs_def)

lemma var_attrs_ref_update [simp]:
  "var_attrs_ref (cds\<lparr>variables := AList.update n c (variables cds)\<rparr>) m =
     (if m = n then Inr (col_attrs c) else var_attrs_ref cds m)"
  by (simp add: var_attrs_ref_def update_conv')

lemma copy_variable_attrs_2d:
  assumes "length (dims v) = 2" and "map_of (variables cds) n = Some col"
      and "attrs_ref v < length h"
  shows "copy_variable_attrs n v cds h =
           and_then (copied_attrs n (h ! attrs_ref v)) (\<lambda>d.
             Inr (cds\<lparr>variables :=
                        AList.update n (col\<lparr>col_attrs := length h\<rparr>) (variables cds)\<rparr>,
                  h @ [d]))"
proof (cases "\<not> contains ''QC'' n \<and> \<not> contains ''DM'' n")
  case True
  show ?thesis
  proof (cases "scale_entry ''valid_min'' (h ! attrs_ref v)
                  ((h ! attrs_ref v)(''coverage_content_type'' \<mapsto> AStr ''physicalMeasurement''))")
    case (Inl e)
    with True assms show ?thesis
      by (simp add: copy_variable_attrs_def set_var_attrs_col copied_attrs_def
                    scale_bound_fresh)
  next
    case (Inr d1)
    with True assms show ?thesis
      by (simp add: copy_variable_attrs_def set_var_attrs_col copied_attrs_def
                    scale_bound_fresh)
  qed
next
  case False
  with assms show ?thesis
    by (auto simp: copy_variable_attrs_def set_var_attrs_col copied_attrs_def)
qed

lemma strip_ancillary_fresh:
  "var_attrs_ref cds n = Inr (length h) \<Longrightarrow>
   strip_ancillary names n cds avs (h @ [d]) = h @ [strip_tokens names avs d]"
  by (induction avs arbitrary: d) (auto split: option.splits attr_value.splits)

lemma strip_ancillary_missing:
  "var_attrs_ref cds n = Inl e \<Longrightarrow> strip_ancillary names n cds avs h = h"
  by (induction avs) auto

lemma repair_ancillary_fresh:
  "var_attrs_ref cds n = Inr (length h) \<Longrightarrow> attrs_ref v < length h \<Longrightarrow>
   repair_ancillary names n v cds (h @ [d]) = h @ [stripped names (h ! attrs_ref v) d]"
  by (simp add: repair_ancillary_def stripped_def strip_ancillary_fresh nth_append
           split: option.splits attr_value.splits)

lemma repair_ancillary_missing:
  "var_attrs_ref cds n = Inl e \<Longrightarrow> repair_ancillary names n v cds h = h"
  by (simp add: repair_ancillary_def strip_ancillary_missing
           split: option.splits attr_value.splits)

lemma two_dim_simps [simp]:
  "two_dim [] = []"
  "two_dim ((n, v) # vs) = (if length (dims v) = 2 then (n, v) # two_dim vs else two_dim vs)"
  by (simp_all add: two_dim_def)

lemma two_dim_subset: "set (two_dim vs) \<subseteq> set vs"
  by (auto simp: two_dim_def)

lemma two_dim_member: "(n, v) \<in> set (two_dim vs) \<longleftrightarrow> (n, v) \<in> set vs \<and> length (dims v) = 2"
  by (auto simp: two_dim_def)

lemma distinct_two_dim: "distinct (map fst vs) \<Longrightarrow> distinct (map fst (two_dim vs))"
  by (simp add: two_dim_def distinct_map_filter)

lemma update_fresh: "n \<notin> fst ` set al \<Longrightarrow> AList.update n x al = al @ [(n, x)]"
  by (induction al) auto

lemma map_fst_update_present:
  "map_of al n = Some c \<Longrightarrow> map fst (AList.update n c' al) = map fst al"
  by (induction al) (auto split: if_splits)

lemma slice_variables_eq_Inr:
  assumes "distinct (map fst df @ map fst vs)"
  shows "slice_variables vs p i j df = Inr df' \<longleftrightarrow>
           (\<forall>(n, v) \<in> set vs. length (dims v) \<le> 2
               \<and> (length (dims v) = 2 \<longrightarrow> p < length (rows v)))
           \<and> df' = df @ map (\<lambda>(n, v). (n, py_slice (rows v ! p) i j)) (two_dim vs)"
  using assms
proof (induction vs arbitrary: df)
  case Nil
  then show ?case by auto
next
  case (Cons nv vs)
  obtain n v where nv: "nv = (n, v)" by (cases nv)
  from Cons.prems nv have fresh: "n \<notin> fst ` set df" by auto
  consider "length (dims v) = 2" "p < length (rows v)"
    | "length (dims v) = 2" "\<not> p < length (rows v)"
    | "length (dims v) > 2" | "length (dims v) < 2"
    by linarith
  then show ?case
  proof cases
    case 1
    have d: "distinct (map fst (df @ [(n, py_slice (rows v ! p) i j)]) @ map fst vs)"
      using Cons.prems nv by auto
    from Cons.IH[OF d] 1 fresh nv show ?thesis
      by (simp add: py_get_def update_fresh)
  next
    case 2
    with nv show ?thesis by (auto simp: py_get_def)
  next
    case 3
    with nv show ?thesis by auto
  next
    case 4
    have d: "distinct (map fst df @ map fst vs)"
      using Cons.prems nv by auto
    from Cons.IH[OF d] 4 nv show ?thesis by simp
  qed
qed

lemma slice_variables_too_many:
  assumes "vs = pre @ (n, v) # post" and "length (dims v) > 2"
      and "\<forall>(m, w) \<in> set pre. length (dims w) \<le> 2
              \<and> (length (dims w) = 2 \<longrightarrow> p < length (rows w))"
  shows "slice_variables vs p i j df = Inl (SystemExit (too_many_dims n))"
  using assms
proof (induction pre arbitrary: vs df)
  case Nil
  then show ?case by simp
next
  case (Cons mw pre)
  obtain m w where mw: "mw = (m, w)" by (cases mw)
  from Cons.prems mw have w: "length (dims w) \<le> 2" "length (dims w) = 2 \<longrightarrow> p < length (rows w)"
    by auto
  have rest: "\<And>df'. slice_variables (pre @ (n, v) # post) p i j df' = Inl (SystemExit (too_many_dims n))"
    using Cons.IH[OF refl Cons.prems(2)] Cons.prems(3) by simp
  from w show ?case
    unfolding Cons.prems(1) mw by (auto simp: rest py_get_def)
qed

lemma slice_variables_fatal:
  "(n, v) \<in> set vs \<Longrightarrow> length (dims v) > 2 \<Longrightarrow> \<exists>e. slice_variables vs p i j df = Inl e"
proof (induction vs arbitrary: df)
  case Nil
  then show ?case by simp
next
  case (Cons mw vs)
  obtain m w where mw: "mw = (m, w)" by (cases mw)
  show ?case
  proof (cases "(n, v) = (m, w)")
    case True
    with Cons.prems mw show ?thesis by auto
  next
    case False
    with Cons.prems mw have "(n, v) \<in> set vs" by auto
    from Cons.IH[OF this Cons.prems(2)] mw show ?thesis
      by (auto simp: py_get_def)
  qed
qed

lemma new_variables_eq:
  "new_variables df h =
     (map (\<lambda>(a, (n, vals)). (n, \<lparr>col_values = vals, col_attrs = a\<rparr>)) (enumerate (length h) df),
      h @ replicate (length df) Map.empty)"
proof (induction df arbitrary: h)
  case Nil
  then show ?case by simp
next
  case (Cons nv df)
  obtain n vals where nv: "nv = (n, vals)" by (cases nv)
  show ?case
    unfolding nv by (simp add: alloc_def Cons.IH replicate_app_Cons_same)
qed

lemma new_variables_keys: "map fst (fst (new_variables df h)) = map fst df"
proof -
  have "map fst (map (\<lambda>(a, (n, vals)). (n, \<lparr>col_values = vals, col_attrs = a\<rparr>))
                  (enumerate k df)) = map fst df" for k
    by (induction df arbitrary: k) auto
  then show ?thesis by (simp add: new_variables_eq)
qed

lemma new_variables_values:
  "map (\<lambda>(n, c). (n, col_values c)) (fst (new_variables df h)) = df"
proof -
  have "map (\<lambda>(n, c). (n, col_values c))
          (map (\<lambda>(a, (n, vals)). (n, \<lparr>col_values = vals, col_attrs = a\<rparr>))
             (enumerate k df)) = df" for k
    by (induction df arbitrary: k) auto
  then show ?thesis by (simp add: new_variables_eq)
qed

lemma new_variables_heap: "snd (new_variables df h) = h @ replicate (length df) Map.empty"
  by (simp add: new_variables_eq)

lemma prefix_nth: "prefix hb h \<Longrightarrow> a < length hb \<Longrightarrow> h ! a = hb ! a"
  by (auto simp: prefix_def nth_append)

lemma prefix_snoc: "prefix hb h \<Longrightarrow> prefix hb (h @ ds)"
  by (auto simp: prefix_def)

lemma var_attrs_ref_None: "map_of (variables cds) n = None \<Longrightarrow> var_attrs_ref cds n = Inl (KeyError n)"
  by (simp add: var_attrs_ref_def)

lemma copy_variable_attrs_2d_Inr:
  assumes ok: "copy_variable_attrs n v cds h = Inr (cds1, h1)"
      and two: "length (dims v) = 2" and ref: "attrs_ref v < length h"
  obtains col d where "map_of (variables cds) n = Some col"
    and "copied_attrs n (h ! attrs_ref v) = Inr d"
    and "cds1 = cds\<lparr>variables := AList.update n (col\<lparr>col_attrs := length h\<rparr>) (variables cds)\<rparr>"
    and "h1 = h @ [d]"
proof (cases "map_of (variables cds) n")
  case None
  with ok two show ?thesis
    by (simp add: copy_variable_attrs_def set_var_attrs_missing)
next
  case (Some col)
  from ok copy_variable_attrs_2d[OF two Some ref] that[OF Some] show ?thesis
    by (auto simp: and_then_eq_Inr)
qed

lemma repair_attributes_Inr:
  assumes "repair_attributes names vs cds h = Inr (cds', h')"
      and "distinct (map fst vs)"
      and "\<forall>(n, v) \<in> set vs. attrs_ref v < length hb"
      and "prefix hb h"
      and "\<forall>(n, v) \<in> set vs. length (dims v) \<noteq> 2 \<longrightarrow> map_of (variables cds) n = None"
  shows "\<exists>ds. h' = h @ ds \<and> length ds = length (two_dim vs)
          \<and> coord_names cds' = coord_names cds \<and> cds_attrs cds' = cds_attrs cds
          \<and> map fst (variables cds') = map fst (variables cds)
          \<and> (\<forall>m. m \<notin> fst ` set (two_dim vs) \<longrightarrow>
                 map_of (variables cds') m = map_of (variables cds) m)
          \<and> (\<forall>i < length (two_dim vs). case two_dim vs ! i of (n, v) \<Rightarrow>
               \<exists>col0 d. map_of (variables cds) n = Some col0
                 \<and> map_of (variables cds') n = Some (col0\<lparr>col_attrs := length h + i\<rparr>)
                 \<and> copied_attrs n (hb ! attrs_ref v) = Inr d
                 \<and> ds ! i = stripped names (hb ! attrs_ref v) d)"
  using assms
proof (induction vs arbitrary: cds h)
  case Nil
  then show ?case by simp
next
  case (Cons nv vs)
  obtain n v where nv: "nv = (n, v)" by (cases nv)
  from Cons.prems(2) nv have dist: "distinct (map fst vs)" and nfresh: "n \<notin> fst ` set vs"
    by auto
  from Cons.prems(3) nv have ref: "attrs_ref v < length hb"
    and refs: "\<forall>(n, v) \<in> set vs. attrs_ref v < length hb" by auto
  from Cons.prems(4) have len: "length hb \<le> length h" by (auto simp: prefix_def)
  from ref len have refh: "attrs_ref v < length h" by simp
  from ref Cons.prems(4) have same: "h ! attrs_ref v = hb ! attrs_ref v"
    by (rule prefix_nth[rotated])
  from Cons.prems(1) nv obtain cds1 h1 where
    step: "copy_variable_attrs n v cds h = Inr (cds1, h1)" and
    rest: "repair_attributes names vs cds1 (repair_ancillary names n v cds1 h1) = Inr (cds', h')"
    by (auto simp: and_then_eq_Inr)
  show ?case
  proof (cases "length (dims v) = 2")
    case True
    from copy_variable_attrs_2d_Inr[OF step True refh] obtain col d where
      col: "map_of (variables cds) n = Some col" and
      d: "copied_attrs n (h ! attrs_ref v) = Inr d" and
      cds1: "cds1 = cds\<lparr>variables :=
                AList.update n (col\<lparr>col_attrs := length h\<rparr>) (variables cds)\<rparr>" and
      h1: "h1 = h @ [d]"
      by blast
    let ?D = "stripped names (hb ! attrs_ref v) d"
    have anc: "repair_ancillary names n v cds1 h1 = h @ [?D]"
      unfolding h1 using repair_ancillary_fresh[of cds1 n h v names d] refh same
      by (simp add: cds1)
    have other: "\<And>m. m \<noteq> n \<Longrightarrow> map_of (variables cds1) m = map_of (variables cds) m"
      by (simp add: cds1 update_conv')
    have at_n: "map_of (variables cds1) n = Some (col\<lparr>col_attrs := length h\<rparr>)"
      by (simp add: cds1 update_conv')
    have p1: "prefix hb (h @ [?D])" using Cons.prems(4) by (rule prefix_snoc)
    have none1: "\<forall>(m, w) \<in> set vs. length (dims w) \<noteq> 2 \<longrightarrow> map_of (variables cds1) m = None"
    proof (clarify)
      fix m w assume mw: "(m, w) \<in> set vs" and "length (dims w) \<noteq> 2"
      with Cons.prems(5) have "map_of (variables cds) m = None" by auto
      moreover from mw nfresh have "m \<noteq> n" by force
      ultimately show "map_of (variables cds1) m = None" by (simp add: other)
    qed
    from Cons.IH[OF rest[unfolded anc] dist refs p1 none1] obtain ds where
      h': "h' = (h @ [?D]) @ ds" and lds: "length ds = length (two_dim vs)" and
      cn: "coord_names cds' = coord_names cds1" and ca: "cds_attrs cds' = cds_attrs cds1" and
      keys: "map fst (variables cds') = map fst (variables cds1)" and
      frame: "\<forall>m. m \<notin> fst ` set (two_dim vs) \<longrightarrow>
                map_of (variables cds') m = map_of (variables cds1) m" and
      each: "\<forall>i < length (two_dim vs). case two_dim vs ! i of (m, w) \<Rightarrow>
               \<exists>col0 d. map_of (variables cds1) m = Some col0
                 \<and> map_of (variables cds') m = Some (col0\<lparr>col_attrs := length (h @ [?D]) + i\<rparr>)
                 \<and> copied_attrs m (hb ! attrs_ref w) = Inr d
                 \<and> ds ! i = stripped names (hb ! attrs_ref w) d"
      by blast
    have n2: "n \<notin> fst ` set (two_dim vs)"
      using nfresh two_dim_subset[of vs] by force
    have "\<forall>i < length (two_dim ((n, v) # vs)). case two_dim ((n, v) # vs) ! i of (m, w) \<Rightarrow>
               \<exists>col0 d'. map_of (variables cds) m = Some col0
                 \<and> map_of (variables cds') m = Some (col0\<lparr>col_attrs := length h + i\<rparr>)
                 \<and> copied_attrs m (hb ! attrs_ref w) = Inr d'
                 \<and> (?D # ds) ! i = stripped names (hb ! attrs_ref w) d'"
    proof (intro allI impI)
      fix i assume i: "i < length (two_dim ((n, v) # vs))"
      show "case two_dim ((n, v) # vs) ! i of (m, w) \<Rightarrow>
               \<exists>col0 d'. map_of (variables cds) m = Some col0
                 \<and> map_of (variables cds') m = Some (col0\<lparr>col_attrs := length h + i\<rparr>)
                 \<and> copied_attrs m (hb ! attrs_ref w) = Inr d'
                 \<and> (?D # ds) ! i = stripped names (hb ! attrs_ref w) d'"
      proof (cases i)
        case 0
        from frame n2 at_n have "map_of (variables cds') n = Some (col\<lparr>col_attrs := length h\<rparr>)"
          by simp
        with 0 True col d same show ?thesis by simp
      next
        case (Suc k)
        with i True have k: "k < length (two_dim vs)" by simp
        obtain m w where mw: "two_dim vs ! k = (m, w)" by (cases "two_dim vs ! k")
        from k mw have "(m, w) \<in> set (two_dim vs)" by (metis nth_mem)
        with n2 have "m \<noteq> n" by force
        from each k mw obtain col0 d' where
          "map_of (variables cds1) m = Some col0"
          "map_of (variables cds') m = Some (col0\<lparr>col_attrs := length (h @ [?D]) + k\<rparr>)"
          "copied_attrs m (hb ! attrs_ref w) = Inr d'"
          "ds ! k = stripped names (hb ! attrs_ref w) d'"
          by fastforce
        with \<open>m \<noteq> n\<close> Suc True mw show ?thesis by (simp add: other)
      qed
    qed
    moreover have "\<forall>m. m \<notin> fst ` set (two_dim ((n, v) # vs)) \<longrightarrow>
                map_of (variables cds') m = map_of (variables cds) m"
      using frame other True by auto
    moreover have "map fst (variables cds') = map fst (variables cds)"
      using keys by (simp add: cds1 map_fst_update_present[OF col])
    moreover have "coord_names cds' = coord_names cds" "cds_attrs cds' = cds_attrs cds"
      using cn ca by (simp_all add: cds1)
    moreover have "h' = h @ (?D # ds)" "length (?D # ds) = length (two_dim ((n, v) # vs))"
      using h' lds True by simp_all
    ultimately show ?thesis unfolding nv by blast
  next
    case False
    with step have small: "\<not> length (dims v) > 2" and c1: "cds1 = cds" and h1: "h1 = h"
      by (auto simp: copy_variable_attrs_def split: if_splits)
    from Cons.prems(5) nv False have "map_of (variables cds) n = None" by auto
    then have anc: "repair_ancillary names n v cds h = h"
      by (simp add: repair_ancillary_missing var_attrs_ref_None)
    have none1: "\<forall>(m, w) \<in> set vs. length (dims w) \<noteq> 2 \<longrightarrow> map_of (variables cds) m = None"
      using Cons.prems(5) by auto
    from Cons.IH[OF rest[unfolded c1 h1 anc] dist refs Cons.prems(4) none1] False
    show ?thesis unfolding nv by simp
  qed
qed

lemma repair_attributes_succeeds:
  assumes "distinct (map fst vs)"
      and "\<forall>(n, v) \<in> set vs. attrs_ref v < length hb"
      and "prefix hb h"
      and "\<forall>(n, v) \<in> set vs. length (dims v) \<le> 2"
      and "\<forall>(n, v) \<in> set vs.
             if length (dims v) = 2
             then map_of (variables cds) n \<noteq> None
                  \<and> (\<exists>d. copied_attrs n (hb ! attrs_ref v) = Inr d)
             else map_of (variables cds) n = None"
  shows "\<exists>cds' h'. repair_attributes names vs cds h = Inr (cds', h')"
  using assms
proof (induction vs arbitrary: cds h)
  case Nil
  then show ?case by simp
next
  case (Cons nv vs)
  obtain n v where nv: "nv = (n, v)" by (cases nv)
  from Cons.prems(1) nv have dist: "distinct (map fst vs)" and nfresh: "n \<notin> fst ` set vs"
    by auto
  from Cons.prems(2) nv have ref: "attrs_ref v < length hb"
    and refs: "\<forall>(n, v) \<in> set vs. attrs_ref v < length hb" by auto
  from Cons.prems(3) have len: "length hb \<le> length h" by (auto simp: prefix_def)
  from ref len have refh: "attrs_ref v < length h" by simp
  from ref Cons.prems(3) have same: "h ! attrs_ref v = hb ! attrs_ref v"
    by (rule prefix_nth[rotated])
  from Cons.prems(4) nv have small: "length (dims v) \<le> 2"
    and smalls: "\<forall>(n, v) \<in> set vs. length (dims v) \<le> 2" by auto
  show ?case
  proof (cases "length (dims v) = 2")
    case True
    with Cons.prems(5) nv obtain col d where
      col: "map_of (variables cds) n = Some col" and
      d: "copied_attrs n (hb ! attrs_ref v) = Inr d"
      by auto
    let ?cds1 = "cds\<lparr>variables :=
                AList.update n (col\<lparr>col_attrs := length h\<rparr>) (variables cds)\<rparr>"
    let ?D = "stripped names (hb ! attrs_ref v) d"
    have step: "copy_variable_attrs n v cds h = Inr (?cds1, h @ [d])"
      using copy_variable_attrs_2d[OF True col refh] d same by simp
    have anc: "repair_ancillary names n v ?cds1 (h @ [d]) = h @ [?D]"
      using repair_ancillary_fresh[of ?cds1 n h v names d] refh same by simp
    have other: "\<And>m. m \<noteq> n \<Longrightarrow> map_of (variables ?cds1) m = map_of (variables cds) m"
      by (simp add: update_conv')
    have cond1: "\<forall>(m, w) \<in> set vs.
             if length (dims w) = 2
             then map_of (variables ?cds1) m \<noteq> None
                  \<and> (\<exists>d. copied_attrs m (hb ! attrs_ref w) = Inr d)
             else map_of (variables ?cds1) m = None"
    proof (clarify)
      fix m w assume mw: "(m, w) \<in> set vs"
      with nfresh have "m \<noteq> n" by force
      with Cons.prems(5) mw other[OF this]
      show "if length (dims w) = 2
             then map_of (variables ?cds1) m \<noteq> None
                  \<and> (\<exists>d. copied_attrs m (hb ! attrs_ref w) = Inr d)
             else map_of (variables ?cds1) m = None"
        by (auto split: if_splits)
    qed
    have p1: "prefix hb (h @ [?D])" using Cons.prems(3) by (rule prefix_snoc)
    from Cons.IH[OF dist refs p1 smalls cond1] step anc
    show ?thesis unfolding nv by simp
  next
    case False
    with small have lt: "length (dims v) < 2" by simp
    from Cons.prems(5) nv False have none: "map_of (variables cds) n = None" by auto
    have step: "copy_variable_attrs n v cds h = Inr (cds, h)"
      using lt by (simp add: copy_variable_attrs_def)
    have anc: "repair_ancillary names n v cds h = h"
      using none by (simp add: repair_ancillary_missing var_attrs_ref_None)
    have cond1: "\<forall>(m, w) \<in> set vs.
             if length (dims w) = 2
             then map_of (variables cds) m \<noteq> None
                  \<and> (\<exists>d. copied_attrs m (hb ! attrs_ref w) = Inr d)
             else map_of (variables cds) m = None"
      using Cons.prems(5) by auto
    from Cons.IH[OF dist refs Cons.prems(3) smalls cond1] step anc
    show ?thesis unfolding nv by simp
  qed
qed

lemma map_of_two_dim:
  assumes "distinct (map fst vs)" and "i < length (two_dim vs)" and "two_dim vs ! i = (n, v)"
  shows "map_of (map (\<lambda>(n, v). (n, f n v)) (two_dim vs)) n = Some (f n v)"
proof -
  have d: "distinct (map fst (two_dim vs))" using assms(1) by (rule distinct_two_dim)
  have "(n, v) \<in> set (two_dim vs)" using assms(2,3) by (metis nth_mem)
  then have "(n, f n v) \<in> set (map (\<lambda>(n, v). (n, f n v)) (two_dim vs))" by force
  moreover have "distinct (map fst (map (\<lambda>(n, v). (n, f n v)) (two_dim vs)))"
    using d by (simp add: comp_def case_prod_beta)
  ultimately show ?thesis by (rule map_of_is_SomeI[rotated])
qed

lemma not_two_dim_name:
  assumes "distinct (map fst vs)" and "(n, v) \<in> set vs" and "length (dims v) \<noteq> 2"
  shows "n \<notin> fst ` set (two_dim vs)"
proof
  assume "n \<in> fst ` set (two_dim vs)"
  then obtain w where w: "(n, w) \<in> set (two_dim vs)" by auto
  then have "(n, w) \<in> set vs" "length (dims w) = 2" by (auto simp: two_dim_member)
  with assms(1,2) have "w = v" by (meson eq_key_imp_eq_value)
  with \<open>length (dims w) = 2\<close> assms(3) show False by simp
qed

lemma pressure_row_Inr:
  "pressure_row ds p = Inr row \<longleftrightarrow>
     (\<exists>v. map_of (data_vars ds) ''PRES'' = Some v \<and> length (dims v) = 2
          \<and> p < length (rows v) \<and> row = rows v ! p)"
  by (auto simp: pressure_row_def pressure_rows_def py_get_def and_then_eq_Inr
           split: option.splits if_splits)

lemma from_dataframe_eq:
  "from_dataframe df h =
     (\<lparr>variables = fst (new_variables df h), coord_names = [],
       cds_attrs = length h + length df\<rparr>,
      h @ replicate (Suc (length df)) Map.empty)"
  by (simp add: from_dataframe_def new_variables_eq alloc_def replicate_append_same)

lemma map_of_new_variables:
  assumes "map_of df n = Some vals" 
  shows "\<exists>a. map_of (fst (new_variables df h)) n = Some \<lparr>col_values = vals, col_attrs = a\<rparr>"
proof -
  have "map_of (map (\<lambda>(n, c). (n, col_values c)) (fst (new_variables df h))) n = Some vals"
    using assms by (simp add: new_variables_values)
  then obtain c where c: "map_of (fst (new_variables df h)) n = Some c" "col_values c = vals"
    by (auto simp: map_of_map map_option_case split: option.splits)
  then show ?thesis by (cases c) auto
qed

lemma map_of_new_variables_None:
  "n \<notin> fst ` set df \<Longrightarrow> map_of (fst (new_variables df h)) n = None"
  using new_variables_keys[of df h] by (metis map_of_eq_None_iff set_map)

lemma station_slices_keys [simp]: "map fst (station_slices vs p i j) = map fst (two_dim vs)"
  by (simp add: station_slices_def comp_def case_prod_beta)

lemma create_Inr:
  assumes ok: "create_dataset_with_variables c h = Inr (cds, h')"
      and dist: "distinct (map fst (data_vars (contents (parentFile c))))"
      and refs: "\<forall>(n, v) \<in> set (data_vars (contents (parentFile c))). attrs_ref v < length h"
  shows "\<exists>row i_min i_max ds.
           pressure_row (contents (parentFile c)) (position c) = Inr row
         \<and> py_index row (min_pressure c) = Inr i_min
         \<and> py_index row (max_pressure c) = Inr i_max
         \<and> (\<forall>(n, v) \<in> set (data_vars (contents (parentFile c))). length (dims v) \<le> 2
               \<and> (length (dims v) = 2 \<longrightarrow> position c < length (rows v)))
         \<and> map fst (variables cds) = map fst (two_dim (data_vars (contents (parentFile c))))
         \<and> coord_names cds = [''PRES'']
         \<and> ''PRES'' \<in> set (map fst (variables cds))
         \<and> cds_attrs cds = length h + length (two_dim (data_vars (contents (parentFile c))))
         \<and> h' = h @ replicate (Suc (length (two_dim (data_vars (contents (parentFile c))))))
                      Map.empty @ ds
         \<and> length ds = length (two_dim (data_vars (contents (parentFile c))))
         \<and> (\<forall>i < length (two_dim (data_vars (contents (parentFile c)))).
              case two_dim (data_vars (contents (parentFile c))) ! i of (n, v) \<Rightarrow>
               \<exists>d. map_of (variables cds) n =
                      Some \<lparr>col_values = py_slice (rows v ! position c) i_min i_max,
                            col_attrs = length h
                              + Suc (length (two_dim (data_vars (contents (parentFile c))))) + i\<rparr>
                 \<and> copied_attrs n (h ! attrs_ref v) = Inr d
                 \<and> ds ! i = stripped (map fst (data_vars (contents (parentFile c))))
                              (h ! attrs_ref v) d)"
proof -
  let ?vs = "data_vars (contents (parentFile c))"
  let ?p = "position c"
  let ?k = "length (two_dim ?vs)"
  from ok obtain row i_min i_max df cds1 where
    row: "pressure_row (contents (parentFile c)) ?p = Inr row" and
    imin: "py_index row (min_pressure c) = Inr i_min" and
    imax: "py_index row (max_pressure c) = Inr i_max" and
    sl: "slice_variables ?vs ?p i_min i_max [] = Inr df" and
    sc: "set_coords ''PRES'' (fst (from_dataframe df h)) = Inr cds1" and
    rep: "repair_attributes (map fst ?vs) ?vs cds1 (snd (from_dataframe df h)) = Inr (cds, h')"
    unfolding create_dataset_with_variables_def Let_def case_prod_beta and_then_eq_Inr
    by blast
  from dist have d0: "distinct (map fst [] @ map fst ?vs)" by simp
  from sl slice_variables_eq_Inr[OF d0] have
    shape: "\<forall>(n, v) \<in> set ?vs. length (dims v) \<le> 2
               \<and> (length (dims v) = 2 \<longrightarrow> ?p < length (rows v))" and
    df: "df = station_slices ?vs ?p i_min i_max"
    by (auto simp: station_slices_def)
  have ldf: "length df = ?k" by (simp add: df station_slices_def)
  let ?h0 = "h @ replicate (Suc ?k) Map.empty"
  have fd: "from_dataframe df h =
     (\<lparr>variables = fst (new_variables df h), coord_names = [], cds_attrs = length h + ?k\<rparr>, ?h0)"
    by (simp add: from_dataframe_eq ldf)
  from sc fd have pres: "''PRES'' \<in> set (map fst (fst (new_variables df h)))" and
    cds1: "cds1 = \<lparr>variables = fst (new_variables df h), coord_names = [''PRES''],
                   cds_attrs = length h + ?k\<rparr>"
    by (auto simp: set_coords_def split: if_splits)
  have keys1: "map fst (variables cds1) = map fst (two_dim ?vs)"
    by (simp add: cds1 new_variables_keys df)
  have p0: "prefix h ?h0" by simp
  have none: "\<forall>(n, v) \<in> set ?vs. length (dims v) \<noteq> 2 \<longrightarrow> map_of (variables cds1) n = None"
  proof (clarify)
    fix n v assume "(n, v) \<in> set ?vs" "length (dims v) \<noteq> 2"
    from not_two_dim_name[OF dist this] have "n \<notin> fst ` set df"
      by (metis df list.set_map station_slices_keys)
    then show "map_of (variables cds1) n = None"
      by (simp add: cds1 map_of_new_variables_None)
  qed
  from repair_attributes_Inr[OF rep[unfolded fd snd_conv] dist refs p0 none] obtain ds where
    h': "h' = ?h0 @ ds" and lds: "length ds = ?k" and
    cn: "coord_names cds = coord_names cds1" and ca: "cds_attrs cds = cds_attrs cds1" and
    keys: "map fst (variables cds) = map fst (variables cds1)" and
    each: "\<forall>i < ?k. case two_dim ?vs ! i of (n, v) \<Rightarrow>
               \<exists>col0 d. map_of (variables cds1) n = Some col0
                 \<and> map_of (variables cds) n = Some (col0\<lparr>col_attrs := length ?h0 + i\<rparr>)
                 \<and> copied_attrs n (h ! attrs_ref v) = Inr d
                 \<and> ds ! i = stripped (map fst ?vs) (h ! attrs_ref v) d"
    by blast
  have each': "\<forall>i < ?k. case two_dim ?vs ! i of (n, v) \<Rightarrow>
               \<exists>d. map_of (variables cds) n =
                      Some \<lparr>col_values = py_slice (rows v ! ?p) i_min i_max,
                            col_attrs = length h + Suc ?k + i\<rparr>
                 \<and> copied_attrs n (h ! attrs_ref v) = Inr d
                 \<and> ds ! i = stripped (map fst ?vs) (h ! attrs_ref v) d"
  proof (intro allI impI)
    fix i assume i: "i < ?k"
    obtain n v where nv: "two_dim ?vs ! i = (n, v)" by (cases "two_dim ?vs ! i")
    from each i nv obtain col0 d where
      c0: "map_of (variables cds1) n = Some col0" and
      c: "map_of (variables cds) n = Some (col0\<lparr>col_attrs := length ?h0 + i\<rparr>)" and
      d: "copied_attrs n (h ! attrs_ref v) = Inr d"
         "ds ! i = stripped (map fst ?vs) (h ! attrs_ref v) d"
      by fastforce
    have "map_of df n = Some (py_slice (rows v ! ?p) i_min i_max)"
      unfolding df station_slices_def
      using map_of_two_dim[OF dist i nv, of "\<lambda>n v. py_slice (rows v ! ?p) i_min i_max"]
      by simp
    from map_of_new_variables[OF this, of h] c0
    have "col_values col0 = py_slice (rows v ! ?p) i_min i_max"
      by (auto simp: cds1)
    then have "col0\<lparr>col_attrs := length ?h0 + i\<rparr> =
                 \<lparr>col_values = py_slice (rows v ! ?p) i_min i_max,
                  col_attrs = length h + Suc ?k + i\<rparr>"
      by (cases col0) simp
    with c d nv show "case two_dim ?vs ! i of (n, v) \<Rightarrow>
               \<exists>d. map_of (variables cds) n =
                      Some \<lparr>col_values = py_slice (rows v ! ?p) i_min i_max,
                            col_attrs = length h + Suc ?k + i\<rparr>
                 \<and> copied_attrs n (h ! attrs_ref v) = Inr d
                 \<and> ds ! i = stripped (map fst ?vs) (h ! attrs_ref v) d"
      by simp
  qed
  from pres have "''PRES'' \<in> set (map fst (variables cds1))" by (simp add: cds1)
  with keys have pres': "''PRES'' \<in> set (map fst (variables cds))" by simp
  from row imin imax shape keys keys1 cn ca cds1 pres' h' lds each'
  show ?thesis by (intro exI[of _ row] exI[of _ i_min] exI[of _ i_max] exI[of _ ds]) simp
qed

lemma scale_entry_Inr:
  "scale_entry k pd cd = Inr d' \<longleftrightarrow>
     (pd k = None \<and> d' = cd) \<or> (\<exists>x. pd k = Some (ANum x) \<and> d' = cd(k \<mapsto> ANum (mul_float x (Finite 0.001))))"
  by (auto simp: scale_entry_def split: option.splits attr_value.splits)

lemma scale_entry_ok: "bound_is_number pd k \<Longrightarrow> \<exists>d'. scale_entry k pd cd = Inr d'"
  by (auto simp: scale_entry_def bound_is_number_def split: option.splits attr_value.splits)

lemma copied_attrs_ok:
  "(\<not> contains ''QC'' n \<and> \<not> contains ''DM'' n \<longrightarrow>
      bound_is_number pd ''valid_min'' \<and> bound_is_number pd ''valid_max'')
   \<Longrightarrow> \<exists>d. copied_attrs n pd = Inr d"
proof (cases "\<not> contains ''QC'' n \<and> \<not> contains ''DM'' n")
  case True
  assume "\<not> contains ''QC'' n \<and> \<not> contains ''DM'' n \<longrightarrow>
      bound_is_number pd ''valid_min'' \<and> bound_is_number pd ''valid_max''"
  with True have b: "bound_is_number pd ''valid_min''" "bound_is_number pd ''valid_max''" by auto
  from scale_entry_ok[OF b(1)] obtain d1 where
    "scale_entry ''valid_min'' pd (pd(''coverage_content_type'' \<mapsto> AStr ''physicalMeasurement'')) = Inr d1"
    by blast
  with scale_entry_ok[OF b(2), of d1] True show ?thesis
    by (auto simp: copied_attrs_def)
next
  case False
  then show ?thesis by (auto simp: copied_attrs_def)
qed

lemma copied_attrs_flagged:
  "contains ''QC'' n \<or> contains ''DM'' n \<Longrightarrow> copied_attrs n pd = Inr pd"
  by (auto simp: copied_attrs_def)

lemma copied_attrs_physical:
  assumes "copied_attrs n pd = Inr d" and "\<not> contains ''QC'' n" and "\<not> contains ''DM'' n"
  shows "d ''coverage_content_type'' = Some (AStr ''physicalMeasurement'')"
    and "k \<in> {''valid_min'', ''valid_max''} \<Longrightarrow> pd k = Some val \<Longrightarrow>
           \<exists>x. val = ANum x \<and> d k = Some (ANum (mul_float x (Finite 0.001)))"
    and "k \<notin> {''valid_min'', ''valid_max'', ''coverage_content_type''} \<Longrightarrow> d k = pd k"
    and "pd k = None \<Longrightarrow> k \<noteq> ''coverage_content_type'' \<Longrightarrow> d k = None"
  using assms
  by (auto simp: copied_attrs_def and_then_eq_Inr scale_entry_Inr split: if_splits)

lemma strip_tokens_other:
  "k \<noteq> ''ancillary_variables'' \<Longrightarrow> strip_tokens names avs d k = d k"
  by (induction avs arbitrary: d) (auto split: option.splits attr_value.splits)

lemma stripped_other: "k \<noteq> ''ancillary_variables'' \<Longrightarrow> stripped names pd d k = d k"
  by (simp add: stripped_def strip_tokens_other split: option.splits attr_value.splits)

lemma create_succeeds:
  assumes dist: "distinct (map fst (data_vars (contents (parentFile c))))"
      and refs: "\<forall>(n, v) \<in> set (data_vars (contents (parentFile c))). attrs_ref v < length h"
      and row: "pressure_row (contents (parentFile c)) (position c) = Inr row"
      and imin: "py_index row (min_pressure c) = Inr i_min"
      and imax: "py_index row (max_pressure c) = Inr i_max"
      and shape: "\<forall>(n, v) \<in> set (data_vars (contents (parentFile c))). length (dims v) \<le> 2
               \<and> (length (dims v) = 2 \<longrightarrow> position c < length (rows v))"
      and nums: "\<forall>(n, v) \<in> set (data_vars (contents (parentFile c))).
               length (dims v) = 2 \<longrightarrow> (\<exists>d. copied_attrs n (h ! attrs_ref v) = Inr d)"
  shows "\<exists>cds h'. create_dataset_with_variables c h = Inr (cds, h')"
proof -
  let ?vs = "data_vars (contents (parentFile c))"
  let ?p = "position c"
  let ?k = "length (two_dim ?vs)"
  let ?df = "station_slices ?vs ?p i_min i_max"
  from dist have d0: "distinct (map fst [] @ map fst ?vs)" by simp
  have sl: "slice_variables ?vs ?p i_min i_max [] = Inr ?df"
    using slice_variables_eq_Inr[OF d0, of ?p i_min i_max ?df] shape
    by (simp add: station_slices_def)
  have ldf: "length ?df = ?k" by (simp add: station_slices_def)
  let ?h0 = "h @ replicate (Suc ?k) Map.empty"
  let ?cds0 = "\<lparr>variables = fst (new_variables ?df h), coord_names = [],
                 cds_attrs = length h + ?k\<rparr>"
  have fd: "from_dataframe ?df h = (?cds0, ?h0)"
    by (simp add: from_dataframe_eq ldf)
  from row obtain pv where pv: "map_of ?vs ''PRES'' = Some pv" "length (dims pv) = 2"
    by (auto simp: pressure_row_Inr)
  then have "(''PRES'', pv) \<in> set (two_dim ?vs)"
    by (auto simp: two_dim_member dest: map_of_SomeD)
  then have "''PRES'' \<in> set (map fst (two_dim ?vs))" by force
  then have pres: "''PRES'' \<in> set (map fst (variables ?cds0))"
    by (simp add: new_variables_keys)
  let ?cds1 = "?cds0\<lparr>coord_names := coord_names ?cds0 @ [''PRES'']\<rparr>"
  have sc: "set_coords ''PRES'' ?cds0 = Inr ?cds1"
    using pres unfolding set_coords_def by (simp only: if_True)
  have keys1: "map fst (variables ?cds1) = map fst (two_dim ?vs)"
    by (simp add: new_variables_keys)
  have cond: "\<forall>(n, v) \<in> set ?vs.
             if length (dims v) = 2
             then map_of (variables ?cds1) n \<noteq> None
                  \<and> (\<exists>d. copied_attrs n (h ! attrs_ref v) = Inr d)
             else map_of (variables ?cds1) n = None"
  proof (clarify)
    fix n v assume nv: "(n, v) \<in> set ?vs"
    show "if length (dims v) = 2
             then map_of (variables ?cds1) n \<noteq> None
                  \<and> (\<exists>d. copied_attrs n (h ! attrs_ref v) = Inr d)
             else map_of (variables ?cds1) n = None"
    proof (cases "length (dims v) = 2")
      case True
      with nv have "(n, v) \<in> set (two_dim ?vs)" by (simp add: two_dim_member)
      then have "n \<in> set (map fst (two_dim ?vs))" by force
      then have "n \<in> fst ` set (variables ?cds1)" using keys1 by (metis set_map)
      then have "map_of (variables ?cds1) n \<noteq> None" by (simp add: map_of_eq_None_iff)
      with True nums nv show ?thesis by auto
    next
      case False
      from not_two_dim_name[OF dist nv False] have "n \<notin> fst ` set (variables ?cds1)"
        using keys1 by (metis set_map)
      then have "map_of (variables ?cds1) n = None" by (simp add: map_of_eq_None_iff)
      with False show ?thesis by simp
    qed
  qed
  have small: "\<forall>(n, v) \<in> set ?vs. length (dims v) \<le> 2" using shape by auto
  have p0: "prefix h ?h0" by simp
  from repair_attributes_succeeds[OF dist refs p0 small cond, of "map fst ?vs"]
  obtain cds h' where "repair_attributes (map fst ?vs) ?vs ?cds1 ?h0 = Inr (cds, h')" by blast
  with row imin imax sl fd sc show ?thesis
    unfolding create_dataset_with_variables_def Let_def by simp
qed


lemma sample_wf: "wf_archive sample_archive sample_heap"
  unfolding wf_archive_def
proof (intro conjI)
  show "distinct (map fst (data_vars sample_archive))"
    by (simp add: sample_archive_def)
  show "ds_attrs sample_archive < length sample_heap"
    by (simp add: sample_archive_def sample_heap_def)
  show "\<forall>(n, v) \<in> set (data_vars sample_archive). attrs_ref v < length sample_heap"
    by (simp add: sample_archive_def sample_heap_def)
qed

lemma prepare_parent_Inr:
  "prepare_parent ds = Inr parent \<longleftrightarrow>
     (\<exists>rs mins maxs. pressure_rows ds = Inr rs
        \<and> map_result py_min rs = Inr mins \<and> map_result py_max rs = Inr maxs
        \<and> parent = \<lparr>contents = ds, latitudes = LATITUDE ds, longitudes = LONGITUDE ds,
                     times = TIME ds, min_pressures = mins, max_pressures = maxs\<rparr>)"
  unfolding prepare_parent_def get_min_max_pressures_def get_coordinate_variables_values_def
  by (simp add: and_then_eq_Inr) blast

lemma prepare_parent_succeeds:
  assumes "pressure_rows ds = Inr rs" and "\<forall>r \<in> set rs. r \<noteq> []"
  shows "\<exists>parent. prepare_parent ds = Inr parent"
proof -
  from assms(2) have "\<forall>r \<in> set rs. \<exists>m. py_min r = Inr m" by (simp add: py_min_succeeds)
  from map_result_succeeds[OF this] obtain mins where "map_result py_min rs = Inr mins" ..
  moreover
  from assms(2) have "\<forall>r \<in> set rs. \<exists>m. py_max r = Inr m" by (simp add: py_max_succeeds)
  from map_result_succeeds[OF this] obtain maxs where "map_result py_max rs = Inr maxs" ..
  ultimately show ?thesis using assms(1) by (simp add: prepare_parent_Inr)
qed

lemma child_init_Inr:
  "child_init lib p parent = Inr c \<Longrightarrow>
     position c = p \<and> parentFile c = parent
     \<and> p < length (min_pressures parent) \<and> min_pressure c = min_pressures parent ! p
     \<and> p < length (max_pressures parent) \<and> max_pressure c = max_pressures parent ! p
     \<and> p < length (latitudes parent) \<and> latitude c = latitudes parent ! p
     \<and> p < length (longitudes parent) \<and> longitude c = longitudes parent ! p
     \<and> p < length (times parent) \<and> time c = times parent ! p"
  unfolding child_init_def Let_def
  by (auto simp: and_then_eq_Inr py_get_def split: if_splits)

lemma child_init_succeeds:
  "p < length (latitudes parent) \<Longrightarrow> p < length (longitudes parent) \<Longrightarrow>
   p < length (min_pressures parent) \<Longrightarrow> p < length (max_pressures parent) \<Longrightarrow>
   p < length (times parent) \<Longrightarrow> \<exists>c. child_init lib p parent = Inr c"
  unfolding child_init_def Let_def by (simp add: py_get_def)

text \<open>The pressure bounds of a station are what \<^verbatim>\<open>min\<close> and \<^verbatim>\<open>max\<close> give on its pressure row.\<close>

lemma station_bounds:
  assumes "prepare_parent ds = Inr parent" and "child_init lib p parent = Inr c"
      and "pressure_row ds p = Inr row"
  shows "py_min row = Inr (min_pressure c) \<and> py_max row = Inr (max_pressure c)
         \<and> contents (parentFile c) = ds \<and> position c = p"
proof -
  from assms(1) obtain rs mins maxs where rs: "pressure_rows ds = Inr rs"
    and mins: "map_result py_min rs = Inr mins" and maxs: "map_result py_max rs = Inr maxs"
    and parent: "parent = \<lparr>contents = ds, latitudes = LATITUDE ds, longitudes = LONGITUDE ds,
                     times = TIME ds, min_pressures = mins, max_pressures = maxs\<rparr>"
    by (auto simp: prepare_parent_Inr)
  from assms(3) rs have p: "p < length rs" "row = rs ! p"
    by (auto simp: pressure_row_def py_get_def split: if_splits)
  from mins p have 1: "py_min row = Inr (mins ! p)" by (simp add: map_result_eq_Inr)
  from maxs p have 2: "py_max row = Inr (maxs ! p)" by (simp add: map_result_eq_Inr)
  from child_init_Inr[OF assms(2)] parent 1 2 show ?thesis by simp
qed


lemma create_variable:
  assumes ok: "create_dataset_with_variables c h = Inr (cds, h')"
      and wf: "wf_archive (contents (parentFile c)) h"
      and mem: "(n, v) \<in> set (data_vars (contents (parentFile c)))"
      and two: "length (dims v) = 2"
  obtains row i_min i_max d a where
    "pressure_row (contents (parentFile c)) (position c) = Inr row"
    "py_index row (min_pressure c) = Inr i_min"
    "py_index row (max_pressure c) = Inr i_max"
    "position c < length (rows v)"
    "map_of (variables cds) n =
       Some \<lparr>col_values = py_slice (rows v ! position c) i_min i_max, col_attrs = a\<rparr>"
    "length h \<le> a" "a < length h'"
    "copied_attrs n (h ! attrs_ref v) = Inr d"
    "h' ! a = stripped (map fst (data_vars (contents (parentFile c)))) (h ! attrs_ref v) d"
proof -
  let ?vs = "data_vars (contents (parentFile c))"
  let ?k = "length (two_dim ?vs)"
  from wf have dist: "distinct (map fst ?vs)"
    and refs: "\<forall>(n, v) \<in> set ?vs. attrs_ref v < length h"
    by (auto simp: wf_archive_def)
  from create_Inr[OF ok dist refs] obtain row i_min i_max ds where
    row: "pressure_row (contents (parentFile c)) (position c) = Inr row" and
    imin: "py_index row (min_pressure c) = Inr i_min" and
    imax: "py_index row (max_pressure c) = Inr i_max" and
    shape: "\<forall>(n, v) \<in> set ?vs. length (dims v) \<le> 2
               \<and> (length (dims v) = 2 \<longrightarrow> position c < length (rows v))" and
    h': "h' = h @ replicate (Suc ?k) Map.empty @ ds" and
    lds: "length ds = ?k" and
    each: "\<forall>i < ?k. case two_dim ?vs ! i of (n, v) \<Rightarrow>
               \<exists>d. map_of (variables cds) n =
                      Some \<lparr>col_values = py_slice (rows v ! position c) i_min i_max,
                            col_attrs = length h + Suc ?k + i\<rparr>
                 \<and> copied_attrs n (h ! attrs_ref v) = Inr d
                 \<and> ds ! i = stripped (map fst ?vs) (h ! attrs_ref v) d"
    by blast
  from mem two have "(n, v) \<in> set (two_dim ?vs)" by (simp add: two_dim_member)
  then obtain i where i: "i < ?k" "two_dim ?vs ! i = (n, v)"
    by (auto simp: in_set_conv_nth)
  with each obtain d where
    col: "map_of (variables cds) n =
            Some \<lparr>col_values = py_slice (rows v ! position c) i_min i_max,
                  col_attrs = length h + Suc ?k + i\<rparr>" and
    d: "copied_attrs n (h ! attrs_ref v) = Inr d" and
    dsi: "ds ! i = stripped (map fst ?vs) (h ! attrs_ref v) d"
    by fastforce
  have at: "h' ! (length h + Suc ?k + i) = ds ! i"
    unfolding h' by (simp add: nth_append)
  have lt: "length h + Suc ?k + i < length h'"
    unfolding h' using i(1) lds by simp
  from shape mem two have p: "position c < length (rows v)" by auto
  from at dsi have fin: "h' ! (length h + Suc ?k + i) =
      stripped (map fst ?vs) (h ! attrs_ref v) d" by simp
  have le: "length h \<le> length h + Suc ?k + i" by simp
  show ?thesis
    by (rule that[OF row imin imax p col le lt d fin])
qed

lemma create_prefix:
  assumes "create_dataset_with_variables c h = Inr (cds, h')"
      and "wf_archive (contents (parentFile c)) h"
  shows "prefix h h'"
proof -
  from assms(2) have dist: "distinct (map fst (data_vars (contents (parentFile c))))"
    and refs: "\<forall>(n, v) \<in> set (data_vars (contents (parentFile c))). attrs_ref v < length h"
    by (auto simp: wf_archive_def)
  from create_Inr[OF assms(1) dist refs] show ?thesis by (auto simp: prefix_def)
qed

text \<open>When a station can be built.\<close>

lemma station_succeeds:
  assumes parent: "prepare_parent ds = Inr parent"
      and wf: "wf_archive ds h"
      and coords: "p < length (LATITUDE ds)" "p < length (LONGITUDE ds)" "p < length (TIME ds)"
      and row: "pressure_row ds p = Inr row"
      and shape: "\<forall>(n, v) \<in> set (data_vars ds). length (dims v) \<le> 2
               \<and> (length (dims v) = 2 \<longrightarrow> p < length (rows v))"
      and nums: "\<forall>(n, v) \<in> set (data_vars ds).
               length (dims v) = 2 \<and> \<not> contains ''QC'' n \<and> \<not> contains ''DM'' n \<longrightarrow>
               bound_is_number (h ! attrs_ref v) ''valid_min''
               \<and> bound_is_number (h ! attrs_ref v) ''valid_max''"
      and mn: "py_min row = Inr m" and imin: "py_index row m = Inr i_min"
      and mx: "py_max row = Inr M" and imax: "py_index row M = Inr i_max"
  shows "\<exists>c cds h'. child_init lib p parent = Inr c
           \<and> create_dataset_with_variables c h = Inr (cds, h')"
proof -
  from parent obtain rs mins maxs where rs: "pressure_rows ds = Inr rs"
    and mins: "map_result py_min rs = Inr mins" and maxs: "map_result py_max rs = Inr maxs"
    and pf: "parent = \<lparr>contents = ds, latitudes = LATITUDE ds, longitudes = LONGITUDE ds,
                     times = TIME ds, min_pressures = mins, max_pressures = maxs\<rparr>"
    by (auto simp: prepare_parent_Inr)
  from row rs have p: "p < length rs"
    by (auto simp: pressure_row_def py_get_def split: if_splits)
  from mins maxs have "length mins = length rs" "length maxs = length rs"
    by (simp_all add: map_result_eq_Inr)
  with child_init_succeeds[of p parent lib] coords p pf obtain c where
    c: "child_init lib p parent = Inr c" by auto
  from station_bounds[OF parent c row] mn mx have
    mn': "min_pressure c = m" and mx': "max_pressure c = M"
    and cd: "contents (parentFile c) = ds" and pc: "position c = p"
    by simp_all
  from imin mn' have imin': "py_index row (min_pressure c) = Inr i_min" by simp
  from imax mx' have imax': "py_index row (max_pressure c) = Inr i_max" by simp
  from wf have dist: "distinct (map fst (data_vars ds))"
    and refs: "\<forall>(n, v) \<in> set (data_vars ds). attrs_ref v < length h"
    by (auto simp: wf_archive_def)
  have cop: "\<forall>(n, v) \<in> set (data_vars ds).
               length (dims v) = 2 \<longrightarrow> (\<exists>d. copied_attrs n (h ! attrs_ref v) = Inr d)"
  proof (clarify)
    fix n v assume "(n, v) \<in> set (data_vars ds)" "length (dims v) = 2"
    with nums have "\<not> contains ''QC'' n \<and> \<not> contains ''DM'' n \<longrightarrow>
      bound_is_number (h ! attrs_ref v) ''valid_min''
      \<and> bound_is_number (h ! attrs_ref v) ''valid_max''" by auto
    then show "\<exists>d. copied_attrs n (h ! attrs_ref v) = Inr d" by (rule copied_attrs_ok)
  qed
  from create_succeeds[of c h row i_min i_max] dist refs row imin' imax' shape cop cd pc
  obtain cds h' where "create_dataset_with_variables c h = Inr (cds, h')" by auto
  with c show ?thesis by blast
qed

text \<open>In particular, a station whose first pressure cell is a number can be built.\<close>

lemma station_succeeds_first:
  assumes parent: "prepare_parent ds = Inr parent"
      and wf: "wf_archive ds h"
      and coords: "p < length (LATITUDE ds)" "p < length (LONGITUDE ds)" "p < length (TIME ds)"
      and row: "pressure_row ds p = Inr (Finite a # rest)"
      and shape: "\<forall>(n, v) \<in> set (data_vars ds). length (dims v) \<le> 2
               \<and> (length (dims v) = 2 \<longrightarrow> p < length (rows v))"
      and nums: "\<forall>(n, v) \<in> set (data_vars ds).
               length (dims v) = 2 \<and> \<not> contains ''QC'' n \<and> \<not> contains ''DM'' n \<longrightarrow>
               bound_is_number (h ! attrs_ref v) ''valid_min''
               \<and> bound_is_number (h ! attrs_ref v) ''valid_max''"
  shows "\<exists>c cds h'. child_init lib p parent = Inr c
           \<and> create_dataset_with_variables c h = Inr (cds, h')"
proof -
  from py_min_index_succeeds[of a rest] obtain m i_min where
    mn: "py_min (Finite a # rest) = Inr m" and imin: "py_index (Finite a # rest) m = Inr i_min"
    by blast
  from py_max_index_succeeds[of a rest] obtain M i_max where
    mx: "py_max (Finite a # rest) = Inr M" and imax: "py_index (Finite a # rest) M = Inr i_max"
    by blast
  show ?thesis
    by (rule station_succeeds[OF parent wf coords row shape nums mn imin mx imax])
qed

lemma sample_rows: "pressure_rows sample_archive = Inr sample_pressures"
  by (simp add: pressure_rows_def sample_archive_def)

lemma sample_parent: "\<exists>parent. prepare_parent sample_archive = Inr parent"
  by (rule prepare_parent_succeeds[OF sample_rows]) (simp add: sample_pressures_def)

lemma sample_shape:
  "p < 3 \<Longrightarrow> \<forall>(n, v) \<in> set (data_vars sample_archive). length (dims v) \<le> 2
               \<and> (length (dims v) = 2 \<longrightarrow> p < length (rows v))"
  by (simp add: sample_archive_def sample_pressures_def)

lemma sample_bounds:
  "\<forall>(n, v) \<in> set (data_vars sample_archive).
               length (dims v) = 2 \<and> \<not> contains ''QC'' n \<and> \<not> contains ''DM'' n \<longrightarrow>
               bound_is_number (sample_heap ! attrs_ref v) ''valid_min''
               \<and> bound_is_number (sample_heap ! attrs_ref v) ''valid_max''"
  by (simp add: sample_archive_def sample_heap_def bound_is_number_def pres_attrs_def
                temp_attrs_def)

lemma sample_row: "p < 3 \<Longrightarrow> pressure_row sample_archive p = Inr (sample_pressures ! p)"
  by (simp add: pressure_row_def sample_rows py_get_def and_then_def sample_pressures_def)

lemma sample_first: "p < 3 \<Longrightarrow> \<exists>a rest. sample_pressures ! p = Finite a # rest"
proof -
  assume "p < 3"
  then consider "p = 0" | "p = 1" | "p = 2" by linarith
  then show ?thesis by cases (simp_all add: sample_pressures_def)
qed

lemma sample_station:
  assumes "prepare_parent sample_archive = Inr parent" and "p < 3"
  shows "\<exists>c cds h'. child_init lib p parent = Inr c
           \<and> create_dataset_with_variables c sample_heap = Inr (cds, h')"
proof -
  have coords: "p < length (LATITUDE sample_archive)" "p < length (LONGITUDE sample_archive)"
    "p < length (TIME sample_archive)"
    using assms(2) by (simp_all add: sample_archive_def)
  from sample_first[OF assms(2)] obtain a rest where
    "sample_pressures ! p = Finite a # rest" by blast
  with sample_row[OF assms(2)] have row: "pressure_row sample_archive p = Inr (Finite a # rest)"
    by simp
  show ?thesis
    by (rule station_succeeds_first[OF assms(1) sample_wf coords row
          sample_shape[OF assms(2)] sample_bounds])
qed


subsection \<open>The window of a station\<close>

lemma station_row:
  assumes "prepare_parent ds = Inr parent" and "child_init lib p parent = Inr c"
  shows "\<exists>row. pressure_row ds p = Inr row"
proof -
  from assms(1) obtain rs mins where rs: "pressure_rows ds = Inr rs"
    and mins: "map_result py_min rs = Inr mins"
    and pf: "min_pressures parent = mins"
    by (auto simp: prepare_parent_Inr)
  from mins have "length mins = length rs" by (simp add: map_result_eq_Inr)
  with child_init_Inr[OF assms(2)] pf have "p < length rs" by simp
  with rs show ?thesis by (simp add: pressure_row_def py_get_def and_then_def)
qed

lemma station_child:
  assumes "prepare_parent ds = Inr parent" and "child_init lib p parent = Inr c"
  shows "contents (parentFile c) = ds" and "position c = p"
proof -
  from station_row[OF assms] obtain row where "pressure_row ds p = Inr row" ..
  from station_bounds[OF assms this] show "contents (parentFile c) = ds" "position c = p"
    by simp_all
qed

lemma py_slice_nth:
  "k < length (py_slice xs a b) \<Longrightarrow> a + k < b \<and> py_slice xs a b ! k = xs ! (a + k)"
  by (auto simp: py_slice_def)

lemma py_slice_empty: "b \<le> a \<Longrightarrow> py_slice xs a b = []"
  by (simp add: py_slice_def)

text \<open>
  A station whose first pressure cell is NaN is not built: \<^verbatim>\<open>min\<close> gives NaN, which
  \<^verbatim>\<open>index\<close> does not find.
\<close>

lemma station_fails_first_NaN:
  assumes parent: "prepare_parent ds = Inr parent"
      and c: "child_init lib p parent = Inr c"
      and row: "pressure_row ds p = Inr (NaN # rest)"
  shows "create_dataset_with_variables c h = Inl ValueError"
proof -
  from station_bounds[OF parent c row] have
    mn: "py_min (NaN # rest) = Inr (min_pressure c)"
    and cd: "contents (parentFile c) = ds" and pc: "position c = p" by simp_all
  from py_index_first_NaN[OF mn] have
    "py_index (NaN # rest) (min_pressure c) = Inl ValueError" .
  with row cd pc show ?thesis
    unfolding create_dataset_with_variables_def Let_def by (simp add: and_then_def)
qed

text \<open>
  Claim C1. For a station that is built, the window starts at the first position of the
  minimum of the station's pressure row and ends before the first position of its maximum:
  every two-dimensional variable of the archive is carried over as the elements of its row
  at the positions \<open>i_min, \<dots>, i_max - 1\<close>, so the sample at \<open>i_max\<close> is left out. The
  minimum and the maximum are what \<^verbatim>\<open>min\<close> and \<^verbatim>\<open>max\<close> give on the row, the least and
  the greatest of its numbers: cells that are NaN are passed over.
\<close>

theorem station_window_is_half_open:
  assumes parent: "prepare_parent ds = Inr parent"
      and wf: "wf_archive ds h"
      and c: "child_init lib p parent = Inr c"
      and ok: "create_dataset_with_variables c h = Inr (cds, h')"
      and mem: "(n, v) \<in> set (data_vars ds)" and two: "length (dims v) = 2"
  shows "\<exists>row i_min i_max col.
           pressure_row ds p = Inr row
         \<and> py_min row = Inr (Finite (Min (set (numbers row))))
         \<and> i_min < length row \<and> row ! i_min = Finite (Min (set (numbers row)))
         \<and> (\<forall>j < i_min. row ! j \<noteq> Finite (Min (set (numbers row))))
         \<and> py_max row = Inr (Finite (Max (set (numbers row))))
         \<and> i_max < length row \<and> row ! i_max = Finite (Max (set (numbers row)))
         \<and> (\<forall>j < i_max. row ! j \<noteq> Finite (Max (set (numbers row))))
         \<and> map_of (variables cds) n = Some col
         \<and> col_values col = take (i_max - i_min) (drop i_min (rows v ! p))
         \<and> (\<forall>k < length (col_values col).
               i_min + k < i_max \<and> col_values col ! k = rows v ! p ! (i_min + k))"
proof -
  note sc = station_child[OF parent c]
  from wf sc have wf': "wf_archive (contents (parentFile c)) h" by simp
  from mem sc have mem': "(n, v) \<in> set (data_vars (contents (parentFile c)))" by simp
  obtain row i_min i_max d a where
    row: "pressure_row (contents (parentFile c)) (position c) = Inr row" and
    imin: "py_index row (min_pressure c) = Inr i_min" and
    imax: "py_index row (max_pressure c) = Inr i_max" and
    "position c < length (rows v)" and
    col: "map_of (variables cds) n =
       Some \<lparr>col_values = py_slice (rows v ! position c) i_min i_max, col_attrs = a\<rparr>" and
    "length h \<le> a" "a < length h'" and
    "copied_attrs n (h ! attrs_ref v) = Inr d" and
    "h' ! a = stripped (map fst (data_vars (contents (parentFile c)))) (h ! attrs_ref v) d"
    by (rule create_variable[OF ok wf' mem' two])
  from row sc have row': "pressure_row ds p = Inr row" by simp
  from station_bounds[OF parent c row'] have
    mn: "py_min row = Inr (min_pressure c)" and mx: "py_max row = Inr (max_pressure c)"
    by simp_all
  from py_min_found[OF mn imin] have m: "min_pressure c = Finite (Min (set (numbers row)))" .
  from py_max_found[OF mx imax] have M: "max_pressure c = Finite (Max (set (numbers row)))" .
  let ?col = "\<lparr>col_values = py_slice (rows v ! p) i_min i_max, col_attrs = a\<rparr>"
  from mn m have 0: "py_min row = Inr (Finite (Min (set (numbers row))))" by simp
  from imin m have 1: "i_min < length row \<and> row ! i_min = Finite (Min (set (numbers row)))
         \<and> (\<forall>j < i_min. row ! j \<noteq> Finite (Min (set (numbers row))))"
    by (simp add: py_index_eq_Inr)
  from mx M have 6: "py_max row = Inr (Finite (Max (set (numbers row))))" by simp
  from imax M have 2: "i_max < length row \<and> row ! i_max = Finite (Max (set (numbers row)))
         \<and> (\<forall>j < i_max. row ! j \<noteq> Finite (Max (set (numbers row))))"
    by (simp add: py_index_eq_Inr)
  from col sc have 3: "map_of (variables cds) n = Some ?col" by simp
  have 4: "col_values ?col = take (i_max - i_min) (drop i_min (rows v ! p))"
    by (simp add: py_slice_def)
  have 5: "\<forall>k < length (col_values ?col).
               i_min + k < i_max \<and> col_values ?col ! k = rows v ! p ! (i_min + k)"
    by (simp add: py_slice_nth)
  show ?thesis
    by (rule exI[of _ row], rule exI[of _ i_min], rule exI[of _ i_max], rule exI[of _ ?col])
       (use row' 0 1 6 2 3 4 5 in simp)
qed

theorem station_window_is_half_open_witness:
  "\<exists>parent c cds h' col.
      prepare_parent sample_archive = Inr parent
    \<and> wf_archive sample_archive sample_heap
    \<and> child_init sample_lib 1 parent = Inr c
    \<and> create_dataset_with_variables c sample_heap = Inr (cds, h')
    \<and> pressure_row sample_archive 1 = Inr [Finite 5, Finite 15, Finite 25, Finite 35, NaN]
    \<and> map_of (variables cds) ''TEMP'' = Some col
    \<and> col_values col = [Finite 5, Finite 6, Finite 7]"
proof -
  from sample_parent obtain parent where
    parent: "prepare_parent sample_archive = Inr parent" ..
  from sample_station[OF parent, of 1 sample_lib] obtain c cds h' where
    c: "child_init sample_lib 1 parent = Inr c" and
    ok: "create_dataset_with_variables c sample_heap = Inr (cds, h')" by auto
  let ?v = "\<lparr>dims = [''POSITION'', ''PRES_LEVEL''],
             rows = [[Finite 1, Finite 2, Finite 3, Finite 4, NaN],
                     [Finite 5, Finite 6, Finite 7, Finite 8, NaN],
                     [Finite 4, Finite 3, Finite 2, Finite 1, NaN]], attrs_ref = 2\<rparr>"
  have mem: "(''TEMP'', ?v) \<in> set (data_vars sample_archive)"
    by (simp add: sample_archive_def)
  have two: "length (dims ?v) = 2" by simp
  from station_window_is_half_open[OF parent sample_wf c ok mem two]
  obtain row i_min i_max col where
    row: "pressure_row sample_archive 1 = Inr row" and
    imin: "i_min < length row \<and> row ! i_min = Finite (Min (set (numbers row)))
         \<and> (\<forall>j < i_min. row ! j \<noteq> Finite (Min (set (numbers row))))" and
    imax: "i_max < length row \<and> row ! i_max = Finite (Max (set (numbers row)))
         \<and> (\<forall>j < i_max. row ! j \<noteq> Finite (Max (set (numbers row))))" and
    col: "map_of (variables cds) ''TEMP'' = Some col" and
    vals: "col_values col = take (i_max - i_min) (drop i_min (rows ?v ! 1))"
    by blast
  from row sample_row[of 1] have r: "row = [Finite 5, Finite 15, Finite 25, Finite 35, NaN]"
    by (simp add: sample_pressures_def)
  from imin have "py_index row (Finite (Min (set (numbers row)))) = Inr i_min"
    by (simp add: py_index_eq_Inr)
  with r have i0: "i_min = 0" by (simp add: and_then_def)
  from imax have "py_index row (Finite (Max (set (numbers row)))) = Inr i_max"
    by (simp add: py_index_eq_Inr)
  with r have i3: "i_max = 3" by (simp add: and_then_def)
  from vals i0 i3 have v: "col_values col = [Finite 5, Finite 6, Finite 7]" by simp
  from row r have row': "pressure_row sample_archive 1
       = Inr [Finite 5, Finite 15, Finite 25, Finite 35, NaN]" by simp
  show ?thesis
    by (rule exI[of _ parent], rule exI[of _ c], rule exI[of _ cds], rule exI[of _ h'],
        rule exI[of _ col])
       (intro conjI parent sample_wf c ok row' col v)
qed

lemma create_columns:
  assumes ok: "create_dataset_with_variables c h = Inr (cds, h')"
      and wf: "wf_archive (contents (parentFile c)) h"
      and col: "(n, col) \<in> set (variables cds)"
  obtains v where "(n, v) \<in> set (data_vars (contents (parentFile c)))"
      and "length (dims v) = 2" and "map_of (variables cds) n = Some col"
proof -
  let ?vs = "data_vars (contents (parentFile c))"
  from wf have dist: "distinct (map fst ?vs)"
    and refs: "\<forall>(n, v) \<in> set ?vs. attrs_ref v < length h"
    by (auto simp: wf_archive_def)
  from create_Inr[OF ok dist refs] have
    names: "map fst (variables cds) = map fst (two_dim ?vs)" by blast
  from dist have "distinct (map fst (two_dim ?vs))" by (rule distinct_two_dim)
  with names have "distinct (map fst (variables cds))" by simp
  from map_of_is_SomeI[OF this col] have m: "map_of (variables cds) n = Some col" .
  from col have "n \<in> set (map fst (variables cds))" by force
  with names have "n \<in> set (map fst (two_dim ?vs))" by simp
  then obtain v where "(n, v) \<in> set (two_dim ?vs)" by auto
  then have "(n, v) \<in> set ?vs" "length (dims v) = 2" by (simp_all add: two_dim_member)
  from that[OF this m] show ?thesis .
qed

lemma create_names:
  assumes ok: "create_dataset_with_variables c h = Inr (cds, h')"
      and wf: "wf_archive (contents (parentFile c)) h"
  shows "map fst (variables cds) = map fst (two_dim (data_vars (contents (parentFile c))))"
    and "coord_names cds = [''PRES'']"
proof -
  let ?vs = "data_vars (contents (parentFile c))"
  from wf have dist: "distinct (map fst ?vs)"
    and refs: "\<forall>(n, v) \<in> set ?vs. attrs_ref v < length h"
    by (auto simp: wf_archive_def)
  from create_Inr[OF ok dist refs]
  show "map fst (variables cds) = map fst (two_dim ?vs)" "coord_names cds = [''PRES'']"
    by blast+
qed

text \<open>
  Claim C10. A station in whose pressure row the maximum is found, for the first time,
  before the minimum is found is built without an error, and every variable of the station
  dataset has no values. That both extremes are found is part of the hypothesis: when the
  first cell of the row is NaN they are not, and the station is not built. The other
  hypotheses are those under which any station is built: the archive is well formed, the
  station has coordinates, no variable has more than two dimensions, and the bounds to
  rescale are numbers.
\<close>

theorem descending_station_is_empty:
  assumes parent: "prepare_parent ds = Inr parent"
      and wf: "wf_archive ds h"
      and coords: "p < length (LATITUDE ds)" "p < length (LONGITUDE ds)" "p < length (TIME ds)"
      and row: "pressure_row ds p = Inr row"
      and shape: "\<forall>(n, v) \<in> set (data_vars ds). length (dims v) \<le> 2
               \<and> (length (dims v) = 2 \<longrightarrow> p < length (rows v))"
      and nums: "\<forall>(n, v) \<in> set (data_vars ds).
               length (dims v) = 2 \<and> \<not> contains ''QC'' n \<and> \<not> contains ''DM'' n \<longrightarrow>
               bound_is_number (h ! attrs_ref v) ''valid_min''
               \<and> bound_is_number (h ! attrs_ref v) ''valid_max''"
      and mx: "py_max row = Inr M" and imax: "py_index row M = Inr i_max"
      and mn: "py_min row = Inr m" and imin: "py_index row m = Inr i_min"
      and desc: "i_max < i_min"
  shows "\<exists>c cds h'. child_init lib p parent = Inr c
           \<and> create_dataset_with_variables c h = Inr (cds, h')
           \<and> map fst (variables cds) = map fst (two_dim (data_vars ds))
           \<and> (\<forall>(n, col) \<in> set (variables cds). col_values col = [])"
proof -
  from station_succeeds[OF parent wf coords row shape nums mn imin mx imax, of lib]
  obtain c cds h' where
    c: "child_init lib p parent = Inr c" and
    ok: "create_dataset_with_variables c h = Inr (cds, h')" by blast
  from station_bounds[OF parent c row] mn mx have
    mn': "min_pressure c = m" and mx': "max_pressure c = M"
    and cd: "contents (parentFile c) = ds" and pc: "position c = p"
    by simp_all
  from wf cd have wf': "wf_archive (contents (parentFile c)) h" by simp
  have empty: "col_values col = []" if col: "(n, col) \<in> set (variables cds)" for n col
  proof -
    from create_columns[OF ok wf' col] obtain v where
      mem: "(n, v) \<in> set (data_vars (contents (parentFile c)))" and
      two: "length (dims v) = 2" and m: "map_of (variables cds) n = Some col" by blast
    obtain row' i_min' i_max' d a where
      row': "pressure_row (contents (parentFile c)) (position c) = Inr row'" and
      imin': "py_index row' (min_pressure c) = Inr i_min'" and
      imax': "py_index row' (max_pressure c) = Inr i_max'" and
      "position c < length (rows v)" and
      col': "map_of (variables cds) n =
         Some \<lparr>col_values = py_slice (rows v ! position c) i_min' i_max', col_attrs = a\<rparr>" and
      "length h \<le> a" "a < length h'" and
      "copied_attrs n (h ! attrs_ref v) = Inr d" and
      "h' ! a = stripped (map fst (data_vars (contents (parentFile c)))) (h ! attrs_ref v) d"
      by (rule create_variable[OF ok wf' mem two])
    from row' row cd pc have r: "row' = row" by simp
    from imin' imin r mn' have i: "i_min' = i_min" by simp
    from imax' imax r mx' have j: "i_max' = i_max" by simp
    from m col' have "col_values col = py_slice (rows v ! position c) i_min' i_max'" by auto
    with i j desc show ?thesis by (simp add: py_slice_empty)
  qed
  from create_names(1)[OF ok wf'] cd have
    names: "map fst (variables cds) = map fst (two_dim (data_vars ds))" by simp
  from empty have "\<forall>(n, col) \<in> set (variables cds). col_values col = []" by blast
  with c ok names show ?thesis by blast
qed

theorem descending_station_is_empty_witness:
  "\<exists>parent c cds h'.
      prepare_parent sample_archive = Inr parent
    \<and> pressure_row sample_archive 2 = Inr [Finite 30, Finite 20, Finite 10, Finite 0, NaN]
    \<and> py_max [Finite 30, Finite 20, Finite 10, Finite 0, NaN] = Inr (Finite 30)
    \<and> py_index [Finite 30, Finite 20, Finite 10, Finite 0, NaN] (Finite 30) = Inr 0
    \<and> py_min [Finite 30, Finite 20, Finite 10, Finite 0, NaN] = Inr (Finite 0)
    \<and> py_index [Finite 30, Finite 20, Finite 10, Finite 0, NaN] (Finite 0) = Inr 3
    \<and> child_init sample_lib 2 parent = Inr c
    \<and> create_dataset_with_variables c sample_heap = Inr (cds, h')
    \<and> map fst (variables cds) = [''PRES'', ''TEMP'', ''TEMP_QC'', ''PRES_DM'']
    \<and> list_all (\<lambda>(n, col). col_values col = []) (variables cds)"
proof -
  let ?row = "[Finite 30, Finite 20, Finite 10, Finite 0, NaN]"
  from sample_parent obtain parent where
    parent: "prepare_parent sample_archive = Inr parent" ..
  have coords: "2 < length (LATITUDE sample_archive)" "2 < length (LONGITUDE sample_archive)"
    "2 < length (TIME sample_archive)"
    by (simp_all add: sample_archive_def)
  have row: "pressure_row sample_archive 2 = Inr ?row"
    using sample_row[of 2] by (simp add: sample_pressures_def)
  have mx: "py_max ?row = Inr (Finite 30)" by simp
  have imax: "py_index ?row (Finite 30) = Inr 0" by simp
  have mn: "py_min ?row = Inr (Finite 0)" by simp
  have imin: "py_index ?row (Finite 0) = Inr 3" by (simp add: and_then_def)
  have desc: "(0::nat) < 3" by simp
  have names: "map fst (two_dim (data_vars sample_archive))
                 = [''PRES'', ''TEMP'', ''TEMP_QC'', ''PRES_DM'']"
    by (simp add: sample_archive_def)
  from descending_station_is_empty[OF parent sample_wf coords row sample_shape
         sample_bounds mx imax mn imin desc, of sample_lib]
  obtain c cds h' where
    c: "child_init sample_lib 2 parent = Inr c" and
    ok: "create_dataset_with_variables c sample_heap = Inr (cds, h')" and
    nm: "map fst (variables cds) = map fst (two_dim (data_vars sample_archive))" and
    em: "\<forall>(n, col) \<in> set (variables cds). col_values col = []"
    by auto
  from nm names have nm': "map fst (variables cds) = [''PRES'', ''TEMP'', ''TEMP_QC'', ''PRES_DM'']"
    by simp
  from em have em': "list_all (\<lambda>(n, col). col_values col = []) (variables cds)"
    by (simp add: list_all_iff)
  show ?thesis
    by (rule exI[of _ parent], rule exI[of _ c], rule exI[of _ cds], rule exI[of _ h'])
       (intro conjI parent row mx imax mn imin c ok nm' em')
qed

subsection \<open>Attributes of the station variables\<close>

text \<open>
  Claim C4. A two-dimensional variable whose name contains neither \<^verbatim>\<open>QC\<close> nor \<^verbatim>\<open>DM\<close> gets
  the content type \<^verbatim>\<open>physicalMeasurement\<close>, and each of \<^verbatim>\<open>valid_min\<close> and \<^verbatim>\<open>valid_max\<close>
  that the parent variable has is, in the station variable, the parent's value times 0.001
  (a bound that the parent does not have is not created). A station is built only if such
  a bound is a number.
\<close>

theorem valid_range_is_rescaled:
  assumes parent: "prepare_parent ds = Inr parent"
      and wf: "wf_archive ds h"
      and c: "child_init lib p parent = Inr c"
      and ok: "create_dataset_with_variables c h = Inr (cds, h')"
      and mem: "(n, v) \<in> set (data_vars ds)" and two: "length (dims v) = 2"
      and qc: "\<not> contains ''QC'' n" and dm: "\<not> contains ''DM'' n"
  shows "\<exists>col. map_of (variables cds) n = Some col
         \<and> (h' ! col_attrs col) ''coverage_content_type'' = Some (AStr ''physicalMeasurement'')
         \<and> (\<forall>k val. k \<in> {''valid_min'', ''valid_max''} \<and> (h ! attrs_ref v) k = Some val \<longrightarrow>
               (\<exists>x. val = ANum x
                  \<and> (h' ! col_attrs col) k = Some (ANum (mul_float x (Finite 0.001)))))
         \<and> (\<forall>k. k \<in> {''valid_min'', ''valid_max''} \<and> (h ! attrs_ref v) k = None \<longrightarrow>
               (h' ! col_attrs col) k = None)"
proof -
  note sc = station_child[OF parent c]
  from wf sc have wf': "wf_archive (contents (parentFile c)) h" by simp
  from mem sc have mem': "(n, v) \<in> set (data_vars (contents (parentFile c)))" by simp
  obtain row i_min i_max d a where
    "pressure_row (contents (parentFile c)) (position c) = Inr row" and
    "py_index row (min_pressure c) = Inr i_min" and
    "py_index row (max_pressure c) = Inr i_max" and
    "position c < length (rows v)" and
    col: "map_of (variables cds) n =
       Some \<lparr>col_values = py_slice (rows v ! position c) i_min i_max, col_attrs = a\<rparr>" and
    "length h \<le> a" "a < length h'" and
    d: "copied_attrs n (h ! attrs_ref v) = Inr d" and
    ha: "h' ! a = stripped (map fst (data_vars (contents (parentFile c)))) (h ! attrs_ref v) d"
    by (rule create_variable[OF ok wf' mem' two])
  let ?col = "\<lparr>col_values = py_slice (rows v ! position c) i_min i_max, col_attrs = a\<rparr>"
  have 1: "(h' ! col_attrs ?col) ''coverage_content_type'' = Some (AStr ''physicalMeasurement'')"
    using copied_attrs_physical(1)[OF d qc dm] by (simp add: ha stripped_other)
  have 2: "\<exists>x. val = ANum x \<and> (h' ! col_attrs ?col) k = Some (ANum (mul_float x (Finite 0.001)))"
    if "k \<in> {''valid_min'', ''valid_max''}" "(h ! attrs_ref v) k = Some val" for k val
  proof -
    from that(1) have "k \<noteq> ''ancillary_variables''" by auto
    with copied_attrs_physical(2)[OF d qc dm that] show ?thesis
      by (simp add: ha stripped_other)
  qed
  have 3: "(h' ! col_attrs ?col) k = None"
    if "k \<in> {''valid_min'', ''valid_max''}" "(h ! attrs_ref v) k = None" for k
  proof -
    from that(1) have "k \<noteq> ''ancillary_variables''" "k \<noteq> ''coverage_content_type''" by auto
    with copied_attrs_physical(4)[OF d qc dm that(2)] show ?thesis
      by (simp add: ha stripped_other)
  qed
  have s2: "\<forall>k val. k \<in> {''valid_min'', ''valid_max''} \<and> (h ! attrs_ref v) k = Some val \<longrightarrow>
               (\<exists>x. val = ANum x
                  \<and> (h' ! col_attrs ?col) k = Some (ANum (mul_float x (Finite 0.001))))"
  proof (intro allI impI, elim conjE)
    fix k val
    assume "k \<in> {''valid_min'', ''valid_max''}" "(h ! attrs_ref v) k = Some val"
    then show "\<exists>x. val = ANum x
                  \<and> (h' ! col_attrs ?col) k = Some (ANum (mul_float x (Finite 0.001)))"
      by (rule 2)
  qed
  have s3: "\<forall>k. k \<in> {''valid_min'', ''valid_max''} \<and> (h ! attrs_ref v) k = None \<longrightarrow>
               (h' ! col_attrs ?col) k = None"
  proof (intro allI impI, elim conjE)
    fix k
    assume "k \<in> {''valid_min'', ''valid_max''}" "(h ! attrs_ref v) k = None"
    then show "(h' ! col_attrs ?col) k = None" by (rule 3)
  qed
  show ?thesis by (rule exI[of _ ?col]) (intro conjI col 1 s2 s3)
qed

theorem valid_range_is_rescaled_witness:
  "\<exists>parent c cds h' col.
      prepare_parent sample_archive = Inr parent
    \<and> wf_archive sample_archive sample_heap
    \<and> child_init sample_lib 0 parent = Inr c
    \<and> create_dataset_with_variables c sample_heap = Inr (cds, h')
    \<and> (sample_heap ! 2) ''valid_min'' = Some (ANum (Finite (- 2500)))
    \<and> (sample_heap ! 2) ''valid_max'' = Some (ANum (Finite 40000))
    \<and> map_of (variables cds) ''TEMP'' = Some col
    \<and> (h' ! col_attrs col) ''coverage_content_type'' = Some (AStr ''physicalMeasurement'')
    \<and> (h' ! col_attrs col) ''valid_min'' = Some (ANum (Finite (- 2.5)))
    \<and> (h' ! col_attrs col) ''valid_max'' = Some (ANum (Finite 40))"
proof -
  from sample_parent obtain parent where
    parent: "prepare_parent sample_archive = Inr parent" ..
  from sample_station[OF parent, of 0 sample_lib] obtain c cds h' where
    c: "child_init sample_lib 0 parent = Inr c" and
    ok: "create_dataset_with_variables c sample_heap = Inr (cds, h')" by auto
  let ?v = "\<lparr>dims = [''POSITION'', ''PRES_LEVEL''],
             rows = [[Finite 1, Finite 2, Finite 3, Finite 4, NaN],
                     [Finite 5, Finite 6, Finite 7, Finite 8, NaN],
                     [Finite 4, Finite 3, Finite 2, Finite 1, NaN]], attrs_ref = 2\<rparr>"
  have mem: "(''TEMP'', ?v) \<in> set (data_vars sample_archive)"
    by (simp add: sample_archive_def)
  have two: "length (dims ?v) = 2" by simp
  have qc: "\<not> contains ''QC'' ''TEMP''" by simp
  have dm: "\<not> contains ''DM'' ''TEMP''" by simp
  have lo: "(sample_heap ! 2) ''valid_min'' = Some (ANum (Finite (- 2500)))"
    by (simp add: sample_heap_def temp_attrs_def)
  have hi: "(sample_heap ! 2) ''valid_max'' = Some (ANum (Finite 40000))"
    by (simp add: sample_heap_def temp_attrs_def)
  from valid_range_is_rescaled[OF parent sample_wf c ok mem two qc dm]
  obtain col where
    col: "map_of (variables cds) ''TEMP'' = Some col" and
    cct: "(h' ! col_attrs col) ''coverage_content_type'' = Some (AStr ''physicalMeasurement'')" and
    sc: "\<forall>k val. k \<in> {''valid_min'', ''valid_max''} \<and> (sample_heap ! attrs_ref ?v) k = Some val \<longrightarrow>
               (\<exists>x. val = ANum x
                  \<and> (h' ! col_attrs col) k = Some (ANum (mul_float x (Finite 0.001))))"
    by (elim exE conjE) (rule that)
  from sc[rule_format, of "''valid_min''" "ANum (Finite (- 2500))"] lo
  have vmin: "(h' ! col_attrs col) ''valid_min'' = Some (ANum (Finite (- 2.5)))" by simp
  from sc[rule_format, of "''valid_max''" "ANum (Finite 40000)"] hi
  have vmax: "(h' ! col_attrs col) ''valid_max'' = Some (ANum (Finite 40))" by simp
  show ?thesis
    by (rule exI[of _ parent], rule exI[of _ c], rule exI[of _ cds], rule exI[of _ h'],
        rule exI[of _ col])
       (intro conjI parent sample_wf c ok lo hi col cct vmin vmax)
qed

subsection \<open>Variables that are not two-dimensional\<close>

lemma contains_prefix: "prefix sub s \<Longrightarrow> contains sub s"
  by (cases s) auto

lemma contains_append: "contains sub (a @ sub @ b)"
  by (induction a) (auto intro: contains_prefix)

lemma too_many_dims_names: "contains n (too_many_dims n)"
  unfolding too_many_dims_def by (rule contains_append)

lemma station_exists:
  assumes parent: "prepare_parent ds = Inr parent"
      and coords: "p < length (LATITUDE ds)" "p < length (LONGITUDE ds)" "p < length (TIME ds)"
      and row: "pressure_row ds p = Inr row"
  shows "\<exists>c. child_init lib p parent = Inr c"
proof -
  from parent obtain rs mins maxs where rs: "pressure_rows ds = Inr rs"
    and mins: "map_result py_min rs = Inr mins" and maxs: "map_result py_max rs = Inr maxs"
    and pf: "parent = \<lparr>contents = ds, latitudes = LATITUDE ds, longitudes = LONGITUDE ds,
                     times = TIME ds, min_pressures = mins, max_pressures = maxs\<rparr>"
    by (auto simp: prepare_parent_Inr)
  from row rs have p: "p < length rs"
    by (auto simp: pressure_row_def py_get_def split: if_splits)
  from mins maxs have "length mins = length rs" "length maxs = length rs"
    by (simp_all add: map_result_eq_Inr)
  with child_init_succeeds[of p parent lib] coords p pf show ?thesis by auto
qed

text \<open>
  Claim C6. A variable with more than two dimensions stops the extraction with an exit
  message that contains its name. It is the first such variable, in file order, that is
  reported, once the pressure window is found and provided the variables before it have,
  when two-dimensional, a row for the station that is as long as the pressure row. And
  when a station is built, no variable has more than two dimensions and those with fewer
  than two are not variables of the station dataset.
\<close>

theorem dimensionality_check:
  assumes parent: "prepare_parent ds = Inr parent"
      and wf: "wf_archive ds h"
      and c: "child_init lib p parent = Inr c"
  shows "(\<forall>pre n v post row i_min i_max.
            data_vars ds = pre @ (n, v) # post \<and> length (dims v) > 2
          \<and> pressure_row ds p = Inr row
          \<and> py_index row (min_pressure c) = Inr i_min
          \<and> py_index row (max_pressure c) = Inr i_max
          \<and> (\<forall>(k, w) \<in> set pre. length (dims w) \<le> 2
                \<and> (length (dims w) = 2 \<longrightarrow>
                      p < length (rows w) \<and> length (rows w ! p) = length row))
          \<longrightarrow> create_dataset_with_variables c h = Inl (SystemExit (too_many_dims n))
              \<and> contains n (too_many_dims n))
       \<and> (\<forall>cds h' n v.
            create_dataset_with_variables c h = Inr (cds, h') \<and> (n, v) \<in> set (data_vars ds)
          \<longrightarrow> length (dims v) \<le> 2
              \<and> (length (dims v) < 2 \<longrightarrow> n \<notin> set (map fst (variables cds))))"
proof (intro conjI allI impI)
  note sc = station_child[OF parent c]
  fix pre n v post row i_min i_max
  assume a: "data_vars ds = pre @ (n, v) # post \<and> length (dims v) > 2
          \<and> pressure_row ds p = Inr row
          \<and> py_index row (min_pressure c) = Inr i_min
          \<and> py_index row (max_pressure c) = Inr i_max
          \<and> (\<forall>(k, w) \<in> set pre. length (dims w) \<le> 2
                \<and> (length (dims w) = 2 \<longrightarrow>
                      p < length (rows w) \<and> length (rows w ! p) = length row))"
  then have vs: "data_vars ds = pre @ (n, v) # post" and big: "length (dims v) > 2"
    and row: "pressure_row ds p = Inr row"
    and imin: "py_index row (min_pressure c) = Inr i_min"
    and imax: "py_index row (max_pressure c) = Inr i_max"
    and pre: "\<forall>(k, w) \<in> set pre. length (dims w) \<le> 2
                \<and> (length (dims w) = 2 \<longrightarrow> p < length (rows w))"
    by auto
  from slice_variables_too_many[OF vs big pre, of i_min i_max "[]"]
  have "slice_variables (data_vars ds) p i_min i_max [] = Inl (SystemExit (too_many_dims n))" .
  with row imin imax sc
  show "create_dataset_with_variables c h = Inl (SystemExit (too_many_dims n))"
    unfolding create_dataset_with_variables_def Let_def by (simp add: and_then_def)
  show "contains n (too_many_dims n)" by (rule too_many_dims_names)
next
  note sc = station_child[OF parent c]
  from wf sc have wf': "wf_archive (contents (parentFile c)) h" by simp
  from wf have dist: "distinct (map fst (data_vars ds))"
    and refs: "\<forall>(n, v) \<in> set (data_vars ds). attrs_ref v < length h"
    by (auto simp: wf_archive_def)
  fix cds h' n v
  assume b: "create_dataset_with_variables c h = Inr (cds, h') \<and> (n, v) \<in> set (data_vars ds)"
  then have ok: "create_dataset_with_variables c h = Inr (cds, h')"
    and mem: "(n, v) \<in> set (data_vars ds)" by simp_all
  from dist refs sc have dist': "distinct (map fst (data_vars (contents (parentFile c))))"
    and refs': "\<forall>(n, v) \<in> set (data_vars (contents (parentFile c))). attrs_ref v < length h"
    by simp_all
  from create_Inr[OF ok dist' refs'] sc have
    shape: "\<forall>(n, v) \<in> set (data_vars ds). length (dims v) \<le> 2
               \<and> (length (dims v) = 2 \<longrightarrow> p < length (rows v))"
    by auto
  with mem show "length (dims v) \<le> 2" by auto
  assume small: "length (dims v) < 2"
  from create_names(1)[OF ok wf'] sc have
    names: "map fst (variables cds) = map fst (two_dim (data_vars ds))" by simp
  from small have "length (dims v) \<noteq> 2" by simp
  from not_two_dim_name[OF dist mem this] names
  show "n \<notin> set (map fst (variables cds))" by simp
qed

lemma deep_wf: "wf_archive deep_archive sample_heap"
  unfolding wf_archive_def
proof (intro conjI)
  show "distinct (map fst (data_vars deep_archive))"
    by (simp add: deep_archive_def)
  show "ds_attrs deep_archive < length sample_heap"
    by (simp add: deep_archive_def sample_heap_def)
  show "\<forall>(n, v) \<in> set (data_vars deep_archive). attrs_ref v < length sample_heap"
    by (simp add: deep_archive_def sample_heap_def)
qed

lemma deep_rows: "pressure_rows deep_archive = Inr sample_pressures"
  by (simp add: pressure_rows_def deep_archive_def)

theorem dimensionality_check_witness:
  "(\<exists>parent c.
      prepare_parent deep_archive = Inr parent
    \<and> wf_archive deep_archive sample_heap
    \<and> child_init sample_lib 0 parent = Inr c
    \<and> create_dataset_with_variables c sample_heap
         = Inl (SystemExit (too_many_dims ''SPECTRUM''))
    \<and> contains ''SPECTRUM'' (too_many_dims ''SPECTRUM''))
   \<and> (\<exists>parent c cds h'.
      prepare_parent sample_archive = Inr parent
    \<and> child_init sample_lib 0 parent = Inr c
    \<and> create_dataset_with_variables c sample_heap = Inr (cds, h')
    \<and> ''BOT_DEPTH'' \<notin> set (map fst (variables cds)))"
proof (rule conjI)
  let ?row = "[Finite 0, Finite 10, Finite 20, Finite 30, NaN]"
  have "\<exists>parent. prepare_parent deep_archive = Inr parent"
    by (rule prepare_parent_succeeds[OF deep_rows]) (simp add: sample_pressures_def)
  then obtain parent where parent: "prepare_parent deep_archive = Inr parent" ..
  have coords: "0 < length (LATITUDE deep_archive)" "0 < length (LONGITUDE deep_archive)"
    "0 < length (TIME deep_archive)"
    by (simp_all add: deep_archive_def)
  have row: "pressure_row deep_archive 0 = Inr ?row"
    by (simp add: pressure_row_def deep_rows py_get_def and_then_def sample_pressures_def)
  from station_exists[OF parent coords row, of sample_lib] obtain c where
    c: "child_init sample_lib 0 parent = Inr c" ..
  have pmin: "py_min ?row = Inr (Finite 0)" by simp
  have pmax: "py_max ?row = Inr (Finite 30)" by simp
  note sb = station_bounds[OF parent c row]
  from sb have "py_min ?row = Inr (min_pressure c)" by (rule conjunct1)
  with pmin have mn: "min_pressure c = Finite 0" by (simp only: sum.inject)
  from sb have "py_max ?row = Inr (max_pressure c)" by (rule conjunct2[THEN conjunct1])
  with pmax have mx: "max_pressure c = Finite 30" by (simp only: sum.inject)
  let ?pre = "[(''PRES'', \<lparr>dims = [''POSITION'', ''PRES_LEVEL''],
                     rows = sample_pressures, attrs_ref = 1\<rparr>),
         (''BOT_DEPTH'', \<lparr>dims = [''POSITION''],
                          rows = [[Finite 320], [Finite 150], [Finite 210]],
                          attrs_ref = 5\<rparr>)]"
  let ?v = "\<lparr>dims = [''POSITION'', ''PRES_LEVEL'', ''BAND''], rows = [], attrs_ref = 2\<rparr>"
  let ?post = "[(''TEMP_QC'', \<lparr>dims = [''POSITION'', ''PRES_LEVEL''],
                        rows = [[Finite 1, Finite 1, Finite 1, Finite 1, NaN],
                                [Finite 1, Finite 1, Finite 4, Finite 1, NaN],
                                [Finite 1, Finite 1, Finite 1, Finite 1, NaN]],
                        attrs_ref = 3\<rparr>)]"
  have 1: "data_vars deep_archive = ?pre @ (''SPECTRUM'', ?v) # ?post"
    by (simp add: deep_archive_def)
  have 2: "length (dims ?v) > 2" by simp
  have 3: "py_index ?row (min_pressure c) = Inr 0" by (simp add: mn)
  have 4: "py_index ?row (max_pressure c) = Inr 3" by (simp add: mx and_then_def)
  have 5: "\<forall>(k, w) \<in> set ?pre. length (dims w) \<le> 2
                \<and> (length (dims w) = 2 \<longrightarrow>
                      0 < length (rows w) \<and> length (rows w ! 0) = length ?row)"
    by (simp add: sample_pressures_def)
  have pm: "data_vars deep_archive = ?pre @ (''SPECTRUM'', ?v) # ?post \<and> length (dims ?v) > 2
          \<and> pressure_row deep_archive 0 = Inr ?row
          \<and> py_index ?row (min_pressure c) = Inr 0
          \<and> py_index ?row (max_pressure c) = Inr 3
          \<and> (\<forall>(k, w) \<in> set ?pre. length (dims w) \<le> 2
                \<and> (length (dims w) = 2 \<longrightarrow>
                      0 < length (rows w) \<and> length (rows w ! 0) = length ?row))"
    by (intro conjI 1 2 row 3 4 5)
  from dimensionality_check[OF parent deep_wf c, THEN conjunct1, rule_format, OF pm]
  have r: "create_dataset_with_variables c sample_heap
             = Inl (SystemExit (too_many_dims ''SPECTRUM''))"
    and n: "contains ''SPECTRUM'' (too_many_dims ''SPECTRUM'')" by simp_all
  show "\<exists>parent c.
      prepare_parent deep_archive = Inr parent
    \<and> wf_archive deep_archive sample_heap
    \<and> child_init sample_lib 0 parent = Inr c
    \<and> create_dataset_with_variables c sample_heap
         = Inl (SystemExit (too_many_dims ''SPECTRUM''))
    \<and> contains ''SPECTRUM'' (too_many_dims ''SPECTRUM'')"
    by (rule exI[of _ parent], rule exI[of _ c]) (intro conjI parent deep_wf c r n)
next
  from sample_parent obtain parent where
    parent: "prepare_parent sample_archive = Inr parent" ..
  from sample_station[OF parent, of 0 sample_lib] obtain c cds h' where
    c: "child_init sample_lib 0 parent = Inr c" and
    ok: "create_dataset_with_variables c sample_heap = Inr (cds, h')" by auto
  let ?v = "\<lparr>dims = [''POSITION''],
             rows = [[Finite 320], [Finite 150], [Finite 210]], attrs_ref = 5\<rparr>"
  have mem: "(''BOT_DEPTH'', ?v) \<in> set (data_vars sample_archive)"
    by (simp add: sample_archive_def)
  have pm: "create_dataset_with_variables c sample_heap = Inr (cds, h')
          \<and> (''BOT_DEPTH'', ?v) \<in> set (data_vars sample_archive)"
    by (intro conjI ok mem)
  have small: "length (dims ?v) < 2" by simp
  from dimensionality_check[OF parent sample_wf c, THEN conjunct2, rule_format, OF pm]
  have "length (dims ?v) < 2 \<longrightarrow> ''BOT_DEPTH'' \<notin> set (map fst (variables cds))"
    by (rule conjunct2)
  with small have out: "''BOT_DEPTH'' \<notin> set (map fst (variables cds))" by (rule rev_mp)
  show "\<exists>parent c cds h'.
      prepare_parent sample_archive = Inr parent
    \<and> child_init sample_lib 0 parent = Inr c
    \<and> create_dataset_with_variables c sample_heap = Inr (cds, h')
    \<and> ''BOT_DEPTH'' \<notin> set (map fst (variables cds))"
    by (rule exI[of _ parent], rule exI[of _ c], rule exI[of _ cds], rule exI[of _ h'])
       (intro conjI parent c ok out)
qed


subsection \<open>Writing a station file\<close>

lemma str_replace_space: "str_replace '' '' [] s = filter (\<lambda>c. c \<noteq> CHR '' '') s"
  by (induction s) auto

lemma split_on_nonempty: "split_on sep s \<noteq> []"
  by (induction s) (auto split: list.splits)

lemma split_on_filter:
  "P sep \<Longrightarrow> split_on sep (filter P s) = map (filter P) (split_on sep s)"
proof (induction s)
  case Nil
  then show ?case by simp
next
  case (Cons c cs)
  from split_on_nonempty[of sep cs] obtain t ts where t: "split_on sep cs = t # ts"
    by (cases "split_on sep cs") auto
  with Cons show ?case by auto
qed

lemma flag_tokens_eq:
  "flag_tokens s = map (filter (\<lambda>c. c \<noteq> CHR '' '')) (split_on (CHR '','') s)"
  unfolding flag_tokens_def str_replace_space by (rule split_on_filter) simp

lemma encode_plain:
  "\<not> data_mode n \<Longrightarrow>
   encode_variables (n # ns) cds enc h
     = encode_variables ns cds (AList.update n (encoding_of n) enc) h"
  by (auto simp: data_mode_def encoding_of_def)

lemma encode_data_mode:
  assumes "data_mode n"
  shows "encode_variables (n # ns) cds enc h = Inr r \<longleftrightarrow>
     (\<exists>a s. var_attrs_ref cds n = Inr a \<and> (h ! a) ''flag_values'' = Some (AStr s)
        \<and> encode_variables ns cds (AList.update n (encoding_of n) enc)
             (attrs_set a ''flag_values'' (AArr (flag_tokens s)) h) = Inr r)"
    (is "?L \<longleftrightarrow> ?R")
proof -
  from assms have n: "n \<noteq> ''PRES''" "contains ''DM'' n" by (simp_all add: data_mode_def)
  then have e: "encoding_of n = \<lparr>dtype = ''S1'', FillValue = FillStr '' ''\<rparr>"
    by (simp add: encoding_of_def)
  show ?thesis
  proof
    assume ?L
    with n obtain a fv where a: "var_attrs_ref cds n = Inr a"
      and g: "(h ! a) ''flag_values'' = Some fv"
      and r: "(case fv of
                 AStr s \<Rightarrow>
                   encode_variables ns cds
                     (AList.update n \<lparr>dtype = ''S1'', FillValue = FillStr '' ''\<rparr> enc)
                     (attrs_set a ''flag_values''
                        (AArr (split_on (CHR '','') (str_replace '' '' [] s))) h)
               | _ \<Rightarrow> Inl AttributeError) = Inr r"
      by (auto simp: and_then_eq_Inr)
    then show ?R by (cases fv) (auto simp: e flag_tokens_def)
  next
    assume ?R
    with n show ?L by (auto simp: e flag_tokens_def and_then_eq_Inr)
  qed
qed

declare encode_variables.simps(2) [simp del]

lemma encode_length:
  "encode_variables ns cds enc h = Inr (enc', h') \<Longrightarrow> length h' = length h"
proof (induction ns arbitrary: enc h)
  case Nil
  then show ?case by simp
next
  case (Cons n ns)
  show ?case
  proof (cases "data_mode n")
    case True
    with Cons.prems obtain a s where
      "encode_variables ns cds (AList.update n (encoding_of n) enc)
             (attrs_set a ''flag_values'' (AArr (flag_tokens s)) h) = Inr (enc', h')"
      by (auto simp: encode_data_mode)
    from Cons.IH[OF this] show ?thesis by simp
  next
    case False
    with Cons.prems Cons.IH show ?thesis by (simp add: encode_plain)
  qed
qed

lemma encode_encoding:
  "encode_variables ns cds enc h = Inr (enc', h') \<Longrightarrow>
   map_of enc' n = (if n \<in> set ns then Some (encoding_of n) else map_of enc n)"
proof (induction ns arbitrary: enc h)
  case Nil
  then show ?case by simp
next
  case (Cons m ns)
  let ?enc = "AList.update m (encoding_of m) enc"
  have "\<exists>h1. encode_variables ns cds ?enc h1 = Inr (enc', h')"
  proof (cases "data_mode m")
    case True
    with Cons.prems show ?thesis by (auto simp: encode_data_mode)
  next
    case False
    with Cons.prems show ?thesis by (auto simp: encode_plain)
  qed
  then obtain h1 where "encode_variables ns cds ?enc h1 = Inr (enc', h')" ..
  from Cons.IH[OF this] show ?case by (simp add: update_conv')
qed

text \<open>The loop writes to the dictionaries of the data-mode variables only.\<close>

lemma encode_frame:
  "encode_variables ns cds enc h = Inr (enc', h') \<Longrightarrow>
   \<forall>n \<in> set ns. data_mode n \<longrightarrow> var_attrs_ref cds n \<noteq> Inr a \<Longrightarrow>
   h' ! a = h ! a"
proof (induction ns arbitrary: enc h)
  case Nil
  then show ?case by simp
next
  case (Cons m ns)
  from Cons.prems(2) have rest: "\<forall>n \<in> set ns. data_mode n \<longrightarrow> var_attrs_ref cds n \<noteq> Inr a"
    by simp
  show ?case
  proof (cases "data_mode m")
    case True
    with Cons.prems(1) obtain b s where b: "var_attrs_ref cds m = Inr b" and
      run: "encode_variables ns cds (AList.update m (encoding_of m) enc)
             (attrs_set b ''flag_values'' (AArr (flag_tokens s)) h) = Inr (enc', h')"
      by (auto simp: encode_data_mode)
    from True b Cons.prems(2) have "a \<noteq> b" by auto
    with Cons.IH[OF run rest] show ?thesis by simp
  next
    case False
    with Cons.prems(1) have
      "encode_variables ns cds (AList.update m (encoding_of m) enc) h = Inr (enc', h')"
      by (simp add: encode_plain)
    from Cons.IH[OF this rest] show ?thesis .
  qed
qed

lemma encode_flag_values:
  assumes "encode_variables ns cds enc h = Inr (enc', h')"
      and "distinct ns"
      and "\<forall>n \<in> set ns. \<forall>m \<in> set ns. \<forall>a.
             var_attrs_ref cds n = Inr a \<and> var_attrs_ref cds m = Inr a \<longrightarrow> n = m"
      and "\<forall>n \<in> set ns. \<forall>a. var_attrs_ref cds n = Inr a \<longrightarrow> a < length h"
      and "n \<in> set ns" and "data_mode n"
  shows "\<exists>a s. var_attrs_ref cds n = Inr a \<and> (h ! a) ''flag_values'' = Some (AStr s)
           \<and> h' ! a = (h ! a)(''flag_values'' \<mapsto> AArr (flag_tokens s))"
  using assms
proof (induction ns arbitrary: enc h)
  case Nil
  then show ?case by simp
next
  case (Cons m ns)
  let ?enc = "AList.update m (encoding_of m) enc"
  from Cons.prems(2) have d: "distinct ns" and fresh: "m \<notin> set ns" by simp_all
  from Cons.prems(3) have inj: "\<forall>n \<in> set ns. \<forall>m \<in> set ns. \<forall>a.
             var_attrs_ref cds n = Inr a \<and> var_attrs_ref cds m = Inr a \<longrightarrow> n = m"
    by simp
  show ?case
  proof (cases "data_mode m")
    case False
    with Cons.prems(1) have run: "encode_variables ns cds ?enc h = Inr (enc', h')"
      by (simp add: encode_plain)
    from False Cons.prems(5,6) have mem: "n \<in> set ns" by auto
    from Cons.prems(4) have lt: "\<forall>n \<in> set ns. \<forall>a. var_attrs_ref cds n = Inr a \<longrightarrow> a < length h"
      by simp
    from Cons.IH[OF run d inj lt mem Cons.prems(6)] show ?thesis .
  next
    case True
    with Cons.prems(1) obtain b s where b: "var_attrs_ref cds m = Inr b" and
      fv: "(h ! b) ''flag_values'' = Some (AStr s)" and
      run: "encode_variables ns cds ?enc
             (attrs_set b ''flag_values'' (AArr (flag_tokens s)) h) = Inr (enc', h')"
      by (auto simp: encode_data_mode)
    let ?h1 = "attrs_set b ''flag_values'' (AArr (flag_tokens s)) h"
    from Cons.prems(4) b have blt: "b < length h" by simp
    from Cons.prems(4) have lt: "\<forall>n \<in> set ns. \<forall>a. var_attrs_ref cds n = Inr a \<longrightarrow> a < length ?h1"
      by simp
    show ?thesis
    proof (cases "n = m")
      case True
      have "\<forall>k \<in> set ns. data_mode k \<longrightarrow> var_attrs_ref cds k \<noteq> Inr b"
      proof (intro ballI impI notI)
        fix k assume "k \<in> set ns" "var_attrs_ref cds k = Inr b"
        with Cons.prems(3) b have "k = m" by auto
        with fresh \<open>k \<in> set ns\<close> show False by simp
      qed
      from encode_frame[OF run this] have "h' ! b = ?h1 ! b" .
      also from blt have "\<dots> = (h ! b)(''flag_values'' \<mapsto> AArr (flag_tokens s))"
        by (simp add: attrs_set_def)
      finally show ?thesis using True b fv by blast
    next
      case False
      with Cons.prems(5) have mem: "n \<in> set ns" by simp
      from Cons.IH[OF run d inj lt mem Cons.prems(6)] obtain a t where
        a: "var_attrs_ref cds n = Inr a" and
        fa: "(?h1 ! a) ''flag_values'' = Some (AStr t)" and
        ha: "h' ! a = (?h1 ! a)(''flag_values'' \<mapsto> AArr (flag_tokens t))" by blast
      from Cons.prems(3) a b False mem have "a \<noteq> b" by auto
      with fa ha have "(h ! a) ''flag_values'' = Some (AStr t)"
        "h' ! a = (h ! a)(''flag_values'' \<mapsto> AArr (flag_tokens t))" by simp_all
      with a show ?thesis by blast
    qed
  qed
qed

lemma encode_succeeds:
  assumes "distinct ns"
      and "\<forall>n \<in> set ns. \<forall>m \<in> set ns. \<forall>a.
             var_attrs_ref cds n = Inr a \<and> var_attrs_ref cds m = Inr a \<longrightarrow> n = m"
      and "\<forall>n \<in> set ns. data_mode n \<longrightarrow>
             (\<exists>a s. var_attrs_ref cds n = Inr a \<and> (h ! a) ''flag_values'' = Some (AStr s))"
  shows "\<exists>enc' h'. encode_variables ns cds enc h = Inr (enc', h')"
  using assms
proof (induction ns arbitrary: enc h)
  case Nil
  then show ?case by simp
next
  case (Cons m ns)
  let ?enc = "AList.update m (encoding_of m) enc"
  from Cons.prems(1) have d: "distinct ns" and fresh: "m \<notin> set ns" by simp_all
  from Cons.prems(2) have inj: "\<forall>n \<in> set ns. \<forall>m \<in> set ns. \<forall>a.
             var_attrs_ref cds n = Inr a \<and> var_attrs_ref cds m = Inr a \<longrightarrow> n = m"
    by simp
  show ?case
  proof (cases "data_mode m")
    case False
    from Cons.prems(3) have "\<forall>n \<in> set ns. data_mode n \<longrightarrow>
             (\<exists>a s. var_attrs_ref cds n = Inr a \<and> (h ! a) ''flag_values'' = Some (AStr s))"
      by simp
    from Cons.IH[OF d inj this, of ?enc] False show ?thesis by (simp add: encode_plain)
  next
    case True
    with Cons.prems(3) obtain b s where b: "var_attrs_ref cds m = Inr b" and
      fv: "(h ! b) ''flag_values'' = Some (AStr s)" by auto
    let ?h1 = "attrs_set b ''flag_values'' (AArr (flag_tokens s)) h"
    have "\<forall>n \<in> set ns. data_mode n \<longrightarrow>
             (\<exists>a s. var_attrs_ref cds n = Inr a \<and> (?h1 ! a) ''flag_values'' = Some (AStr s))"
    proof (intro ballI impI)
      fix n assume n: "n \<in> set ns" "data_mode n"
      with Cons.prems(3) obtain a t where a: "var_attrs_ref cds n = Inr a"
        and t: "(h ! a) ''flag_values'' = Some (AStr t)" by auto
      from n fresh have "n \<noteq> m" by auto
      with Cons.prems(2) a b n have "a \<noteq> b" by auto
      with a t show "\<exists>a s. var_attrs_ref cds n = Inr a
          \<and> (?h1 ! a) ''flag_values'' = Some (AStr s)" by simp
    qed
    from Cons.IH[OF d inj this, of ?enc] obtain enc' h' where
      "encode_variables ns cds ?enc ?h1 = Inr (enc', h')" by blast
    with True b fv show ?thesis by (auto simp: encode_data_mode)
  qed
qed


subsection \<open>The global attributes of a station\<close>

lemma attrs_set_second [simp]:
  "attrs_set (Suc (length h)) k v (h @ [d, e]) = h @ [d, e(k \<mapsto> v)]"
  by (simp add: attrs_set_def list_update_append nth_append)

lemma list_update_second [simp]: "(h @ [d, e])[Suc (length h) := x] = h @ [d, x]"
  by (simp add: list_update_append)

lemma nth_second [simp]: "(h @ [d, e]) ! Suc (length h) = e"
  by (simp add: nth_append)

lemma prefix_by_nth:
  "length hb \<le> length h \<Longrightarrow> \<forall>a < length hb. h ! a = hb ! a \<Longrightarrow> prefix hb h"
proof -
  assume l: "length hb \<le> length h" and e: "\<forall>a < length hb. h ! a = hb ! a"
  then have "take (length hb) h = hb" by (simp add: list_eq_iff_nth_eq)
  then have "h = hb @ drop (length hb) h" by (metis append_take_drop_id)
  then show ?thesis unfolding prefix_def by blast
qed

lemma assign_Inr:
  assumes "assign_global_attributes dtnow c cds h = Inr (cds', h')"
  shows "\<exists>D. h' = h @ [h ! ds_attrs (contents (parentFile c)), D]
           \<and> cds' = cds\<lparr>cds_attrs := Suc (length h)\<rparr>
           \<and> D ''doi'' = None
           \<and> (h ! ds_attrs (contents (parentFile c))) ''doi'' \<noteq> None"
  using assms unfolding assign_global_attributes_def alloc_def Let_def
  by (auto simp: and_then_eq_Inr attrs_del_eq_Inr)

lemma assign_succeeds:
  assumes "(h ! ds_attrs (contents (parentFile c))) ''id'' = Some (AStr s)"
      and "(h ! ds_attrs (contents (parentFile c))) ''doi'' \<noteq> None"
  shows "\<exists>cds' h'. assign_global_attributes dtnow c cds h = Inr (cds', h')"
  using assms unfolding assign_global_attributes_def alloc_def Let_def
  by (auto simp: and_then_eq_Inr attrs_del_eq_Inr)

subsection \<open>One station, and the loop\<close>

lemma create_ref_index:
  assumes ok: "create_dataset_with_variables c h = Inr (cds, h')"
      and wf: "wf_archive (contents (parentFile c)) h"
      and ref: "var_attrs_ref cds n = Inr a"
  shows "\<exists>i v. i < length (two_dim (data_vars (contents (parentFile c))))
           \<and> two_dim (data_vars (contents (parentFile c))) ! i = (n, v)
           \<and> a = length h + Suc (length (two_dim (data_vars (contents (parentFile c))))) + i
           \<and> a < length h'"
proof -
  let ?vs = "data_vars (contents (parentFile c))"
  let ?k = "length (two_dim ?vs)"
  from wf have dist: "distinct (map fst ?vs)"
    and refs: "\<forall>(n, v) \<in> set ?vs. attrs_ref v < length h"
    by (auto simp: wf_archive_def)
  from create_Inr[OF ok dist refs] obtain ds where
    names: "map fst (variables cds) = map fst (two_dim ?vs)" and
    h': "h' = h @ replicate (Suc ?k) Map.empty @ ds" and
    lds: "length ds = ?k" and
    each: "\<forall>i < ?k. case two_dim ?vs ! i of (n, v) \<Rightarrow>
               \<exists>d. map_of (variables cds) n =
                      Some \<lparr>col_values = py_slice (rows v ! position c)
                                (projr (py_index (projr (pressure_row (contents (parentFile c)) (position c))) (min_pressure c)))
                                (projr (py_index (projr (pressure_row (contents (parentFile c)) (position c))) (max_pressure c))),
                            col_attrs = length h + Suc ?k + i\<rparr>
                 \<and> copied_attrs n (h ! attrs_ref v) = Inr d
                 \<and> ds ! i = stripped (map fst ?vs) (h ! attrs_ref v) d"
    by fastforce
  from ref obtain col where col: "map_of (variables cds) n = Some col" and a: "a = col_attrs col"
    by (auto simp: var_attrs_ref_def split: option.splits)
  from col have "n \<in> set (map fst (variables cds))" by (force dest: map_of_SomeD)
  with names have "n \<in> set (map fst (two_dim ?vs))" by simp
  then obtain v where "(n, v) \<in> set (two_dim ?vs)" by auto
  then obtain i where i: "i < ?k" "two_dim ?vs ! i = (n, v)"
    by (auto simp: in_set_conv_nth)
  with each col a have "a = length h + Suc ?k + i" by fastforce
  moreover from this i(1) lds have "a < length h'" unfolding h' by simp
  ultimately show ?thesis using i by blast
qed

lemma create_refs:
  assumes ok: "create_dataset_with_variables c h = Inr (cds, h')"
      and wf: "wf_archive (contents (parentFile c)) h"
  shows "var_attrs_ref cds n = Inr a \<Longrightarrow> length h \<le> a \<and> a < length h'"
    and "var_attrs_ref cds n = Inr a \<Longrightarrow> var_attrs_ref cds m = Inr a \<Longrightarrow> n = m"
proof -
  assume "var_attrs_ref cds n = Inr a"
  from create_ref_index[OF ok wf this] show "length h \<le> a \<and> a < length h'" by auto
next
  assume n: "var_attrs_ref cds n = Inr a" and m: "var_attrs_ref cds m = Inr a"
  from create_ref_index[OF ok wf n] create_ref_index[OF ok wf m]
  show "n = m" by auto
qed

lemma var_attrs_ref_globals [simp]:
  "var_attrs_ref (cds\<lparr>cds_attrs := g\<rparr>) n = var_attrs_ref cds n"
  by (simp add: var_attrs_ref_def)

lemma child_data_vars_globals [simp]:
  "child_data_vars (cds\<lparr>cds_attrs := g\<rparr>) = child_data_vars cds"
  by (simp add: child_data_vars_def)

lemma make_station_Inr:
  assumes run: "make_station lib dtnow parent p h = Inr (f, h')"
  obtains c cds h1 h2 where
    "child_init lib p parent = Inr c"
    "create_dataset_with_variables c h = Inr (cds, h1)"
    "assign_global_attributes dtnow c cds h1 = Inr (cds\<lparr>cds_attrs := Suc (length h1)\<rparr>, h2)"
    "encode_variables (child_data_vars cds) (cds\<lparr>cds_attrs := Suc (length h1)\<rparr>) [] h2
       = Inr (file_encoding f, h')"
    "file_contents f = cds\<lparr>cds_attrs := Suc (length h1)\<rparr>"
proof -
  from run obtain c cds h1 cds2 h2 where
    c: "child_init lib p parent = Inr c" and
    cr: "create_dataset_with_variables c h = Inr (cds, h1)" and
    asg: "assign_global_attributes dtnow c cds h1 = Inr (cds2, h2)" and
    out: "output_to_netcdf c cds2 h2 = Inr (f, h')"
    unfolding make_station_def by (auto simp: and_then_eq_Inr)
  from assign_Inr[OF asg] have cds2: "cds2 = cds\<lparr>cds_attrs := Suc (length h1)\<rparr>" by blast
  from out obtain enc where
    enc: "encode_variables (child_data_vars cds2) cds2 [] h2 = Inr (enc, h')" and
    f: "file_contents f = cds2" "file_encoding f = enc"
    unfolding output_to_netcdf_def by (auto simp: and_then_eq_Inr)
  from that[OF c cr] asg enc f cds2 show ?thesis by simp
qed

lemma wf_archive_prefix: "wf_archive ds h \<Longrightarrow> prefix h h' \<Longrightarrow> wf_archive ds h'"
  by (auto simp: wf_archive_def dest!: prefix_length_le)

text \<open>
  Building and writing a station extends the store with the dictionaries of the station
  and changes no dictionary that was there before.
\<close>

lemma make_station_frame:
  assumes run: "make_station lib dtnow parent p h = Inr (f, h')"
      and wf: "wf_archive (contents parent) h"
  shows "prefix h h'"
    and "length h \<le> cds_attrs (file_contents f)"
    and "cds_attrs (file_contents f) < length h'"
    and "(h' ! cds_attrs (file_contents f)) ''doi'' = None"
    and "(h ! ds_attrs (contents parent)) ''doi'' \<noteq> None"
proof -
  from run obtain c cds h1 h2 where
    c: "child_init lib p parent = Inr c" and
    cr: "create_dataset_with_variables c h = Inr (cds, h1)" and
    asg: "assign_global_attributes dtnow c cds h1
            = Inr (cds\<lparr>cds_attrs := Suc (length h1)\<rparr>, h2)" and
    enc: "encode_variables (child_data_vars cds) (cds\<lparr>cds_attrs := Suc (length h1)\<rparr>) [] h2
            = Inr (file_encoding f, h')" and
    f: "file_contents f = cds\<lparr>cds_attrs := Suc (length h1)\<rparr>"
    by (rule make_station_Inr)
  from child_init_Inr[OF c] have pc: "parentFile c = parent" by simp
  with wf have wf': "wf_archive (contents (parentFile c)) h" by simp
  from create_prefix[OF cr wf'] have p1: "prefix h h1" .
  from assign_Inr[OF asg] obtain D where
    h2: "h2 = h1 @ [h1 ! ds_attrs (contents (parentFile c)), D]" and
    D: "D ''doi'' = None" and
    doi: "(h1 ! ds_attrs (contents (parentFile c))) ''doi'' \<noteq> None" by blast
  from encode_length[OF enc] have len: "length h' = length h2" .
  have keep: "h' ! a = h2 ! a" if "a < length h \<or> length h1 \<le> a" for a
  proof (rule encode_frame[OF enc], intro ballI impI)
    fix n assume "n \<in> set (child_data_vars cds)"
    show "var_attrs_ref (cds\<lparr>cds_attrs := Suc (length h1)\<rparr>) n \<noteq> Inr a"
    proof
      assume "var_attrs_ref (cds\<lparr>cds_attrs := Suc (length h1)\<rparr>) n = Inr a"
      then have "var_attrs_ref cds n = Inr a" by simp
      from create_refs(1)[OF cr wf' this] that show False by simp
    qed
  qed
  from p1 have l1: "length h \<le> length h1" by (rule prefix_length_le)
  have "\<forall>a < length h. h' ! a = h ! a"
  proof (intro allI impI)
    fix a assume a: "a < length h"
    with keep have "h' ! a = h2 ! a" by simp
    also from a l1 have "\<dots> = h1 ! a" unfolding h2 by (simp add: nth_append)
    also from p1 a have "\<dots> = h ! a" by (rule prefix_nth)
    finally show "h' ! a = h ! a" .
  qed
  moreover from l1 len have "length h \<le> length h'" unfolding h2 by simp
  ultimately show "prefix h h'" by (intro prefix_by_nth) simp_all
  from l1 f show "length h \<le> cds_attrs (file_contents f)" by simp
  from len f show "cds_attrs (file_contents f) < length h'" unfolding h2 by simp
  from keep[of "Suc (length h1)"] have "h' ! Suc (length h1) = h2 ! Suc (length h1)" by simp
  with D f show "(h' ! cds_attrs (file_contents f)) ''doi'' = None" unfolding h2 by simp
  from wf have "ds_attrs (contents parent) < length h" by (simp add: wf_archive_def)
  with prefix_nth[OF p1 this] doi pc show "(h ! ds_attrs (contents parent)) ''doi'' \<noteq> None"
    by simp
qed

lemma station_loop_frame:
  assumes "station_loop lib clock parent ps files h = (files', Inr h')"
      and "wf_archive (contents parent) h"
  shows "prefix h h' \<and> (\<exists>new. files' = files @ new \<and> length new = length ps
           \<and> (\<forall>f \<in> set new. length h \<le> cds_attrs (file_contents f)
                 \<and> cds_attrs (file_contents f) < length h'
                 \<and> (h' ! cds_attrs (file_contents f)) ''doi'' = None))"
  using assms
proof (induction ps arbitrary: files h)
  case Nil
  then show ?case by simp
next
  case (Cons p ps)
  from Cons.prems(1) obtain f h1 where
    st: "make_station lib (clock p) parent p h = Inr (f, h1)" and
    rest: "station_loop lib clock parent ps (files @ [f]) h1 = (files', Inr h')"
    by (auto split: sum.splits)
  note fr = make_station_frame[OF st Cons.prems(2)]
  from wf_archive_prefix[OF Cons.prems(2) fr(1)] have wf1: "wf_archive (contents parent) h1" .
  from Cons.IH[OF rest wf1] obtain new where
    p2: "prefix h1 h'" and new: "files' = (files @ [f]) @ new" "length new = length ps" and
    each: "\<forall>f \<in> set new. length h1 \<le> cds_attrs (file_contents f)
                 \<and> cds_attrs (file_contents f) < length h'
                 \<and> (h' ! cds_attrs (file_contents f)) ''doi'' = None"
    by blast
  from fr(1) p2 have p: "prefix h h'" by (rule prefix_order.trans)
  from fr(1) have l: "length h \<le> length h1" by (rule prefix_length_le)
  from p2 have l2: "length h1 \<le> length h'" by (rule prefix_length_le)
  from prefix_nth[OF p2 fr(3)] fr(4) have
    d: "(h' ! cds_attrs (file_contents f)) ''doi'' = None" by simp
  have "\<forall>g \<in> set (f # new). length h \<le> cds_attrs (file_contents g)
                 \<and> cds_attrs (file_contents g) < length h'
                 \<and> (h' ! cds_attrs (file_contents g)) ''doi'' = None"
    using each fr(2,3) d l l2 by auto
  moreover from new have "files' = files @ (f # new)" "length (f # new) = length (p # ps)"
    by simp_all
  ultimately show ?case using p by blast
qed


subsection \<open>When the stations of an archive are written\<close>

lemma is_text_iff: "is_text x \<longleftrightarrow> (\<exists>s. x = Some (AStr s))"
  by (cases x rule: is_text.cases) simp_all

lemma first_is_number_iff:
  "first_is_number r \<longleftrightarrow> (\<exists>a rest. r = Inr (Finite a # rest))"
  by (cases r rule: first_is_number.cases) simp_all

lemma station_ready_prefix:
  assumes wf: "wf_archive ds h" and p: "prefix h h1" and r: "station_ready ds h p"
  shows "station_ready ds h1 p"
proof -
  from wf have g: "ds_attrs ds < length h"
    and refs: "\<forall>(n, v) \<in> set (data_vars ds). attrs_ref v < length h"
    by (auto simp: wf_archive_def)
  from prefix_nth[OF p g] have 1: "h1 ! ds_attrs ds = h ! ds_attrs ds" .
  have 2: "h1 ! attrs_ref v = h ! attrs_ref v" if "(n, v) \<in> set (data_vars ds)" for n v
    using refs that prefix_nth[OF p] by auto
  from r show ?thesis unfolding station_ready_def 1
    using 2 by (auto simp: case_prod_beta)
qed

lemma station_ready_row:
  "station_ready ds h p \<Longrightarrow> \<exists>a rest. pressure_row ds p = Inr (Finite a # rest)"
  unfolding station_ready_def by (simp add: first_is_number_iff)

lemma make_station_succeeds:
  assumes parent: "prepare_parent ds = Inr parent"
      and wf: "wf_archive ds h"
      and ready: "station_ready ds h p"
  shows "\<exists>f h'. make_station lib dtnow parent p h = Inr (f, h')"
proof -
  from station_ready_row[OF ready] obtain a rest where
    row: "pressure_row ds p = Inr (Finite a # rest)" by blast
  from ready have coords: "p < length (LATITUDE ds)" "p < length (LONGITUDE ds)"
      "p < length (TIME ds)"
    and shape: "\<forall>(n, v) \<in> set (data_vars ds). length (dims v) \<le> 2
               \<and> (length (dims v) = 2 \<longrightarrow> p < length (rows v))"
    and nums: "\<forall>(n, v) \<in> set (data_vars ds).
               length (dims v) = 2 \<and> \<not> contains ''QC'' n \<and> \<not> contains ''DM'' n \<longrightarrow>
               bound_is_number (h ! attrs_ref v) ''valid_min''
               \<and> bound_is_number (h ! attrs_ref v) ''valid_max''"
    and flags: "\<forall>(n, v) \<in> set (data_vars ds). length (dims v) = 2 \<and> data_mode n \<longrightarrow>
               (\<exists>s. (h ! attrs_ref v) ''flag_values'' = Some (AStr s))"
    and ident: "\<exists>i. (h ! ds_attrs ds) ''id'' = Some (AStr i)"
    and doi: "(h ! ds_attrs ds) ''doi'' \<noteq> None"
    unfolding station_ready_def is_text_iff by auto
  from station_succeeds_first[OF parent wf coords row shape nums, of lib]
  obtain c cds h1 where c: "child_init lib p parent = Inr c"
    and cr: "create_dataset_with_variables c h = Inr (cds, h1)" by blast
  note sc = station_child[OF parent c]
  from wf sc have wf': "wf_archive (contents (parentFile c)) h" by simp
  from wf have g: "ds_attrs ds < length h" by (simp add: wf_archive_def)
  from create_prefix[OF cr wf'] have p1: "prefix h h1" .
  from prefix_nth[OF p1 g] have g1: "h1 ! ds_attrs ds = h ! ds_attrs ds" .
  from ident obtain i where i: "(h ! ds_attrs ds) ''id'' = Some (AStr i)" ..
  from assign_succeeds[of h1 c i dtnow cds] g1 i doi sc obtain cds2 h2 where
    asg: "assign_global_attributes dtnow c cds h1 = Inr (cds2, h2)" by auto
  from assign_Inr[OF asg] obtain D where
    h2: "h2 = h1 @ [h1 ! ds_attrs (contents (parentFile c)), D]" and
    cds2: "cds2 = cds\<lparr>cds_attrs := Suc (length h1)\<rparr>" by blast
  from wf have dist: "distinct (map fst (data_vars ds))" by (simp add: wf_archive_def)
  from create_names(1)[OF cr wf'] sc have
    names: "map fst (variables cds) = map fst (two_dim (data_vars ds))" by simp
  from distinct_two_dim[OF dist] names have dn: "distinct (map fst (variables cds))" by simp
  then have 1: "distinct (child_data_vars cds)" by (simp add: child_data_vars_def)
  have 2: "\<forall>n \<in> set (child_data_vars cds). \<forall>m \<in> set (child_data_vars cds). \<forall>a.
             var_attrs_ref cds2 n = Inr a \<and> var_attrs_ref cds2 m = Inr a \<longrightarrow> n = m"
    using create_refs(2)[OF cr wf'] unfolding cds2 by auto
  have 3: "\<forall>n \<in> set (child_data_vars cds). data_mode n \<longrightarrow>
             (\<exists>a s. var_attrs_ref cds2 n = Inr a \<and> (h2 ! a) ''flag_values'' = Some (AStr s))"
  proof (intro ballI impI)
    fix n assume n: "n \<in> set (child_data_vars cds)" and dm: "data_mode n"
    from n have "n \<in> set (map fst (variables cds))" by (simp add: child_data_vars_def)
    with names obtain v where "(n, v) \<in> set (two_dim (data_vars ds))" by auto
    then have mem: "(n, v) \<in> set (data_vars ds)" and two: "length (dims v) = 2"
      by (simp_all add: two_dim_member)
    from mem sc have mem': "(n, v) \<in> set (data_vars (contents (parentFile c)))" by simp
    obtain row' i_min i_max d b where
      "pressure_row (contents (parentFile c)) (position c) = Inr row'" and
      "py_index row' (min_pressure c) = Inr i_min" and
      "py_index row' (max_pressure c) = Inr i_max" and
      "position c < length (rows v)" and
      col: "map_of (variables cds) n =
         Some \<lparr>col_values = py_slice (rows v ! position c) i_min i_max, col_attrs = b\<rparr>" and
      "length h \<le> b" and blt: "b < length h1" and
      d: "copied_attrs n (h ! attrs_ref v) = Inr d" and
      hb: "h1 ! b = stripped (map fst (data_vars (contents (parentFile c)))) (h ! attrs_ref v) d"
      by (rule create_variable[OF cr wf' mem' two])
    from dm have "contains ''QC'' n \<or> contains ''DM'' n" by (simp add: data_mode_def)
    from copied_attrs_flagged[OF this, of "h ! attrs_ref v"] d have dd: "d = h ! attrs_ref v"
      by simp
    from flags mem two dm obtain s where s: "(h ! attrs_ref v) ''flag_values'' = Some (AStr s)"
      by auto
    from hb dd s have "(h1 ! b) ''flag_values'' = Some (AStr s)" by (simp add: stripped_other)
    with blt have "(h2 ! b) ''flag_values'' = Some (AStr s)" unfolding h2
      by (simp add: nth_append)
    moreover from col have "var_attrs_ref cds2 n = Inr b" unfolding cds2
      by (simp add: var_attrs_ref_def)
    ultimately show "\<exists>a s. var_attrs_ref cds2 n = Inr a
        \<and> (h2 ! a) ''flag_values'' = Some (AStr s)" by blast
  qed
  from encode_succeeds[OF 1 2 3, of "[]"] obtain enc h' where
    enc: "encode_variables (child_data_vars cds) cds2 [] h2 = Inr (enc, h')" by blast
  have "\<forall>n \<in> set (child_data_vars cds). data_mode n \<longrightarrow>
          var_attrs_ref cds2 n \<noteq> Inr (ds_attrs ds)"
  proof (intro ballI impI notI)
    fix n assume "var_attrs_ref cds2 n = Inr (ds_attrs ds)"
    then have "var_attrs_ref cds n = Inr (ds_attrs ds)" unfolding cds2 by simp
    from create_refs(1)[OF cr wf' this] g show False by simp
  qed
  from encode_frame[OF enc this] have "h' ! ds_attrs ds = h2 ! ds_attrs ds" .
  also from g p1 have "\<dots> = h1 ! ds_attrs ds" unfolding h2
    by (auto simp: nth_append dest: prefix_length_le)
  finally have "(h' ! ds_attrs ds) ''id'' = Some (AStr i)" using g1 i by simp
  with enc sc have "\<exists>f. output_to_netcdf c cds2 h2 = Inr (f, h')"
    unfolding output_to_netcdf_def cds2 by (simp add: and_then_eq_Inr)
  with c cr asg show ?thesis unfolding make_station_def by auto
qed

lemma station_loop_succeeds:
  assumes "prepare_parent ds = Inr parent"
      and "wf_archive ds h"
      and "\<forall>p \<in> set ps. station_ready ds h p"
  shows "\<exists>files' h'. station_loop lib clock parent ps files h = (files', Inr h')"
  using assms(2,3)
proof (induction ps arbitrary: files h)
  case Nil
  then show ?case by simp
next
  case (Cons p ps)
  from Cons.prems(2) have ready: "station_ready ds h p" by simp
  from make_station_succeeds[OF assms(1) Cons.prems(1) ready, of lib "clock p"]
  obtain f h1 where st: "make_station lib (clock p) parent p h = Inr (f, h1)" by blast
  from assms(1) have cp: "contents parent = ds" by (auto simp: prepare_parent_Inr)
  from Cons.prems(1) cp have wfp: "wf_archive (contents parent) h" by simp
  from make_station_frame(1)[OF st wfp] have p1: "prefix h h1" .
  from wf_archive_prefix[OF Cons.prems(1) p1] have wf1: "wf_archive ds h1" .
  from Cons.prems(2) station_ready_prefix[OF Cons.prems(1) p1]
  have "\<forall>p \<in> set ps. station_ready ds h1 p" by simp
  from Cons.IH[OF wf1 this, of "files @ [f]"] st show ?case by simp
qed

lemma sample_ready: "p < 3 \<Longrightarrow> station_ready sample_archive sample_heap p"
proof -
  assume p: "p < 3"
  from sample_first[OF p] sample_row[OF p] have
    "first_is_number (pressure_row sample_archive p)"
    by (auto simp: first_is_number_iff)
  moreover from p have "p < length (LATITUDE sample_archive)"
    "p < length (LONGITUDE sample_archive)" "p < length (TIME sample_archive)"
    by (simp_all add: sample_archive_def)
  moreover have "\<forall>(n, v) \<in> set (data_vars sample_archive). length (dims v) \<le> 2
         \<and> (length (dims v) = 2 \<longrightarrow> p < length (rows v)
               \<and> (data_mode n \<longrightarrow> is_text ((sample_heap ! attrs_ref v) ''flag_values''))
               \<and> (\<not> contains ''QC'' n \<and> \<not> contains ''DM'' n \<longrightarrow>
                    bound_is_number (sample_heap ! attrs_ref v) ''valid_min''
                    \<and> bound_is_number (sample_heap ! attrs_ref v) ''valid_max''))"
    using p by (simp add: sample_archive_def sample_pressures_def sample_heap_def
                  data_mode_def bound_is_number_def pres_attrs_def temp_attrs_def
                  pres_dm_attrs_def)
  moreover have "is_text ((sample_heap ! ds_attrs sample_archive) ''id'')"
    by (simp add: sample_archive_def sample_heap_def sample_globals_def)
  moreover have "(sample_heap ! ds_attrs sample_archive) ''doi'' \<noteq> None"
    by (simp add: sample_archive_def sample_heap_def sample_globals_def)
  ultimately show ?thesis unfolding station_ready_def by blast
qed


subsection \<open>The parent archive during the station loop\<close>

lemma assign_copy:
  assumes "assign_global_attributes dtnow c cds h = Inr (cds', h')"
      and "k \<notin> set station_global_keys"
  shows "(h' ! Suc (length h)) k = (h ! ds_attrs (contents (parentFile c))) k"
  using assms unfolding assign_global_attributes_def alloc_def Let_def station_global_keys_def
  by (auto simp: and_then_eq_Inr attrs_del_eq_Inr)

lemma make_station_copy:
  assumes run: "make_station lib dtnow parent p h = Inr (f, h')"
      and wf: "wf_archive (contents parent) h"
      and k: "k \<notin> set station_global_keys"
  shows "(h' ! cds_attrs (file_contents f)) k = (h ! ds_attrs (contents parent)) k"
proof -
  from run obtain c cds h1 h2 where
    c: "child_init lib p parent = Inr c" and
    cr: "create_dataset_with_variables c h = Inr (cds, h1)" and
    asg: "assign_global_attributes dtnow c cds h1
            = Inr (cds\<lparr>cds_attrs := Suc (length h1)\<rparr>, h2)" and
    enc: "encode_variables (child_data_vars cds) (cds\<lparr>cds_attrs := Suc (length h1)\<rparr>) [] h2
            = Inr (file_encoding f, h')" and
    f: "file_contents f = cds\<lparr>cds_attrs := Suc (length h1)\<rparr>"
    by (rule make_station_Inr)
  from child_init_Inr[OF c] have pc: "parentFile c = parent" by simp
  with wf have wf': "wf_archive (contents (parentFile c)) h" by simp
  from create_prefix[OF cr wf'] have p1: "prefix h h1" .
  from wf have g: "ds_attrs (contents parent) < length h" by (simp add: wf_archive_def)
  have "\<forall>n \<in> set (child_data_vars cds). data_mode n \<longrightarrow>
          var_attrs_ref (cds\<lparr>cds_attrs := Suc (length h1)\<rparr>) n \<noteq> Inr (Suc (length h1))"
  proof (intro ballI impI notI)
    fix n assume "var_attrs_ref (cds\<lparr>cds_attrs := Suc (length h1)\<rparr>) n = Inr (Suc (length h1))"
    then have "var_attrs_ref cds n = Inr (Suc (length h1))" by simp
    from create_refs(1)[OF cr wf' this] show False by simp
  qed
  from encode_frame[OF enc this] have "h' ! Suc (length h1) = h2 ! Suc (length h1)" .
  with assign_copy[OF asg k] pc prefix_nth[OF p1 g] f show ?thesis by simp
qed

lemma station_loop_copy:
  assumes "station_loop lib clock parent ps files h = (files', Inr h')"
      and "wf_archive (contents parent) h"
      and "k \<notin> set station_global_keys"
  shows "\<forall>f \<in> set (drop (length files) files').
           (h' ! cds_attrs (file_contents f)) k = (h ! ds_attrs (contents parent)) k"
  using assms(1,2)
proof (induction ps arbitrary: files h)
  case Nil
  then show ?case by simp
next
  case (Cons p ps)
  from Cons.prems(1) obtain f h1 where
    st: "make_station lib (clock p) parent p h = Inr (f, h1)" and
    rest: "station_loop lib clock parent ps (files @ [f]) h1 = (files', Inr h')"
    by (auto split: sum.splits)
  note fr = make_station_frame[OF st Cons.prems(2)]
  from wf_archive_prefix[OF Cons.prems(2) fr(1)] have wf1: "wf_archive (contents parent) h1" .
  from station_loop_frame[OF rest wf1] obtain new where
    p2: "prefix h1 h'" and new: "files' = (files @ [f]) @ new" by blast
  from Cons.prems(2) have g: "ds_attrs (contents parent) < length h"
    by (simp add: wf_archive_def)
  from prefix_nth[OF fr(1) g] have g1: "h1 ! ds_attrs (contents parent) = h ! ds_attrs (contents parent)" .
  from prefix_nth[OF p2 fr(3)] make_station_copy[OF st Cons.prems(2) assms(3)]
  have first: "(h' ! cds_attrs (file_contents f)) k = (h ! ds_attrs (contents parent)) k"
    by simp
  from Cons.IH[OF rest wf1] g1 have
    "\<forall>f \<in> set (drop (length (files @ [f])) files').
           (h' ! cds_attrs (file_contents f)) k = (h ! ds_attrs (contents parent)) k" by simp
  with new first show ?case by simp
qed

text \<open>
  Claim C8. While the stations of an archive are built and written, the dictionaries that
  were in the store when the loop started stay as they were, the global dictionary and the
  variable dictionaries of the parent among them; the arrays of the parent are values that
  the loop reads and never replaces. Every station file has a global dictionary of its
  own, allocated by the loop, that agrees with the parent's on every key that the loop
  does not assign; it has no \<^verbatim>\<open>doi\<close>, whereas the parent still has its \<^verbatim>\<open>doi\<close> after the
  last station.
\<close>

theorem parent_is_not_modified:
  assumes wf: "wf_archive ds h"
      and parent: "prepare_parent ds = Inr parent"
      and run: "station_loop lib clock parent ps [] h = (files, Inr h')"
  shows "prefix h h'
       \<and> h' ! ds_attrs ds = h ! ds_attrs ds
       \<and> (\<forall>(n, v) \<in> set (data_vars ds). h' ! attrs_ref v = h ! attrs_ref v)
       \<and> length files = length ps
       \<and> (\<forall>f \<in> set files.
             length h \<le> cds_attrs (file_contents f)
           \<and> (h' ! cds_attrs (file_contents f)) ''doi'' = None
           \<and> (h' ! ds_attrs ds) ''doi'' \<noteq> None
           \<and> (\<forall>k. k \<notin> set station_global_keys \<longrightarrow>
                 (h' ! cds_attrs (file_contents f)) k = (h ! ds_attrs ds) k))"
proof -
  from parent have cp: "contents parent = ds" by (auto simp: prepare_parent_Inr)
  with wf have wfp: "wf_archive (contents parent) h" by simp
  from station_loop_frame[OF run wfp] obtain new where
    p: "prefix h h'" and new: "files = [] @ new" "length new = length ps" and
    each: "\<forall>f \<in> set new. length h \<le> cds_attrs (file_contents f)
                 \<and> cds_attrs (file_contents f) < length h'
                 \<and> (h' ! cds_attrs (file_contents f)) ''doi'' = None"
    by blast
  from wf have g: "ds_attrs ds < length h"
    and refs: "\<forall>(n, v) \<in> set (data_vars ds). attrs_ref v < length h"
    by (auto simp: wf_archive_def)
  from prefix_nth[OF p g] have 1: "h' ! ds_attrs ds = h ! ds_attrs ds" .
  from refs prefix_nth[OF p] have
    2: "\<forall>(n, v) \<in> set (data_vars ds). h' ! attrs_ref v = h ! attrs_ref v" by auto
  from new have 3: "length files = length ps" by simp
  have doi: "(h ! ds_attrs ds) ''doi'' \<noteq> None" if "f \<in> set files" for f
  proof (cases ps)
    case Nil
    with 3 that show ?thesis by simp
  next
    case (Cons q qs)
    with run obtain g h1 where "make_station lib (clock q) parent q h = Inr (g, h1)"
      by (auto split: sum.splits)
    from make_station_frame(5)[OF this wfp] cp show ?thesis by simp
  qed
  have copy: "(h' ! cds_attrs (file_contents f)) k = (h ! ds_attrs ds) k"
    if "f \<in> set files" "k \<notin> set station_global_keys" for f k
    using station_loop_copy[OF run wfp that(2)] that(1) cp by simp
  have 4: "\<forall>f \<in> set files.
             length h \<le> cds_attrs (file_contents f)
           \<and> (h' ! cds_attrs (file_contents f)) ''doi'' = None
           \<and> (h' ! ds_attrs ds) ''doi'' \<noteq> None
           \<and> (\<forall>k. k \<notin> set station_global_keys \<longrightarrow>
                 (h' ! cds_attrs (file_contents f)) k = (h ! ds_attrs ds) k)"
    using each new doi copy 1 by auto
  from p 1 2 3 4 show ?thesis by (intro conjI)
qed

theorem parent_is_not_modified_witness:
  "\<exists>parent files h'.
      wf_archive sample_archive sample_heap
    \<and> prepare_parent sample_archive = Inr parent
    \<and> station_loop sample_lib sample_clock parent [0, 1, 2] [] sample_heap = (files, Inr h')
    \<and> prefix sample_heap h'
    \<and> h' ! 0 = sample_globals
    \<and> (h' ! 0) ''doi'' = Some (AStr ''10.21335/NMDC-1'')
    \<and> length files = 3
    \<and> list_all (\<lambda>f. 0 < cds_attrs (file_contents f)
                    \<and> (h' ! cds_attrs (file_contents f)) ''doi'' = None
                    \<and> (h' ! cds_attrs (file_contents f)) ''creator_name''
                        = Some (AStr ''IMR'')) files"
proof -
  from sample_parent obtain parent where
    parent: "prepare_parent sample_archive = Inr parent" ..
  have "\<forall>p \<in> set [0, 1, 2]. station_ready sample_archive sample_heap p"
    by (simp add: sample_ready)
  from station_loop_succeeds[OF parent sample_wf this, of sample_lib sample_clock "[]"]
  obtain files h' where
    run: "station_loop sample_lib sample_clock parent [0, 1, 2] [] sample_heap
            = (files, Inr h')" by blast
  note t = parent_is_not_modified[OF sample_wf parent run]
  from t have p: "prefix sample_heap h'" by (rule conjunct1)
  from t have "h' ! ds_attrs sample_archive = sample_heap ! ds_attrs sample_archive"
    by (rule conjunct2[THEN conjunct1])
  then have g: "h' ! 0 = sample_globals" by (simp add: sample_archive_def sample_heap_def)
  then have doi: "(h' ! 0) ''doi'' = Some (AStr ''10.21335/NMDC-1'')"
    by (simp add: sample_globals_def)
  from t have "length files = length [0::nat, 1, 2]"
    by (rule conjunct2[THEN conjunct2, THEN conjunct2, THEN conjunct1])
  then have len: "length files = 3" by simp
  from t have each: "\<forall>f \<in> set files.
             length sample_heap \<le> cds_attrs (file_contents f)
           \<and> (h' ! cds_attrs (file_contents f)) ''doi'' = None
           \<and> (h' ! ds_attrs sample_archive) ''doi'' \<noteq> None
           \<and> (\<forall>k. k \<notin> set station_global_keys \<longrightarrow>
                 (h' ! cds_attrs (file_contents f)) k
                   = (sample_heap ! ds_attrs sample_archive) k)"
    by (rule conjunct2[THEN conjunct2, THEN conjunct2, THEN conjunct2])
  have k: "''creator_name'' \<notin> set station_global_keys"
    by (simp add: station_global_keys_def)
  have cn: "(sample_heap ! ds_attrs sample_archive) ''creator_name'' = Some (AStr ''IMR'')"
    by (simp add: sample_archive_def sample_heap_def sample_globals_def)
  have l: "0 < length sample_heap" by (simp add: sample_heap_def)
  have all: "list_all (\<lambda>f. 0 < cds_attrs (file_contents f)
                    \<and> (h' ! cds_attrs (file_contents f)) ''doi'' = None
                    \<and> (h' ! cds_attrs (file_contents f)) ''creator_name''
                        = Some (AStr ''IMR'')) files"
    unfolding list_all_iff
  proof (intro ballI conjI)
    fix f assume f: "f \<in> set files"
    note e = each[rule_format, OF f]
    from e have "length sample_heap \<le> cds_attrs (file_contents f)" by (rule conjunct1)
    with l show "0 < cds_attrs (file_contents f)" by linarith
    from e show "(h' ! cds_attrs (file_contents f)) ''doi'' = None"
      by (rule conjunct2[THEN conjunct1])
    from e have "\<forall>k. k \<notin> set station_global_keys \<longrightarrow>
                 (h' ! cds_attrs (file_contents f)) k
                   = (sample_heap ! ds_attrs sample_archive) k"
      by (rule conjunct2[THEN conjunct2, THEN conjunct2])
    from this[rule_format, OF k] have "(h' ! cds_attrs (file_contents f)) ''creator_name''
        = (sample_heap ! ds_attrs sample_archive) ''creator_name''" .
    with cn show "(h' ! cds_attrs (file_contents f)) ''creator_name'' = Some (AStr ''IMR'')"
      by simp
  qed
  show ?thesis
    by (rule exI[of _ parent], rule exI[of _ files], rule exI[of _ h'])
       (intro conjI sample_wf parent run p g doi len all)
qed


subsection \<open>The variables of a written station\<close>

lemma data_mode_iff: "data_mode n \<longleftrightarrow> contains ''DM'' n"
proof -
  have "\<not> contains ''DM'' ''PRES''" by simp
  then show ?thesis unfolding data_mode_def by auto
qed

text \<open>
  What the three steps do to a two-dimensional variable \<open>n\<close> of the archive: it is a
  variable of the written dataset with a dictionary of its own; this dictionary is the one
  that the extraction built, with \<^verbatim>\<open>flag_values\<close> rewritten when \<open>n\<close> is a data-mode
  variable; and unless \<open>n\<close> is the pressure, the encoding has the entry of \<open>n\<close>.
\<close>

lemma station_variable:
  assumes parent: "prepare_parent ds = Inr parent"
      and wf: "wf_archive ds h"
      and run: "make_station lib dtnow parent p h = Inr (f, h')"
      and mem: "(n, v) \<in> set (data_vars ds)" and two: "length (dims v) = 2"
  obtains c cds h1 col d where
    "child_init lib p parent = Inr c"
    "create_dataset_with_variables c h = Inr (cds, h1)"
    "map_of (variables cds) n = Some col"
    "map_of (variables (file_contents f)) n = Some col"
    "copied_attrs n (h ! attrs_ref v) = Inr d"
    "h1 ! col_attrs col = stripped (map fst (data_vars ds)) (h ! attrs_ref v) d"
    "\<not> data_mode n \<longrightarrow> h' ! col_attrs col = h1 ! col_attrs col"
    "data_mode n \<longrightarrow> (\<exists>s. (h1 ! col_attrs col) ''flag_values'' = Some (AStr s)
        \<and> h' ! col_attrs col = (h1 ! col_attrs col)(''flag_values'' \<mapsto> AArr (flag_tokens s)))"
    "n \<noteq> ''PRES'' \<longrightarrow> map_of (file_encoding f) n = Some (encoding_of n)"
    "map_of (file_encoding f) ''PRES'' = None"
proof -
  from run obtain c cds h1 h2 where
    c: "child_init lib p parent = Inr c" and
    cr: "create_dataset_with_variables c h = Inr (cds, h1)" and
    asg: "assign_global_attributes dtnow c cds h1
            = Inr (cds\<lparr>cds_attrs := Suc (length h1)\<rparr>, h2)" and
    enc: "encode_variables (child_data_vars cds) (cds\<lparr>cds_attrs := Suc (length h1)\<rparr>) [] h2
            = Inr (file_encoding f, h')" and
    f: "file_contents f = cds\<lparr>cds_attrs := Suc (length h1)\<rparr>"
    by (rule make_station_Inr)
  let ?cds2 = "cds\<lparr>cds_attrs := Suc (length h1)\<rparr>"
  note sc = station_child[OF parent c]
  from wf sc have wf': "wf_archive (contents (parentFile c)) h" by simp
  from mem sc have mem': "(n, v) \<in> set (data_vars (contents (parentFile c)))" by simp
  obtain row i_min i_max d a where
    "pressure_row (contents (parentFile c)) (position c) = Inr row" and
    "py_index row (min_pressure c) = Inr i_min" and
    "py_index row (max_pressure c) = Inr i_max" and
    "position c < length (rows v)" and
    col: "map_of (variables cds) n =
       Some \<lparr>col_values = py_slice (rows v ! position c) i_min i_max, col_attrs = a\<rparr>" and
    "length h \<le> a" and alt: "a < length h1" and
    d: "copied_attrs n (h ! attrs_ref v) = Inr d" and
    ha: "h1 ! a = stripped (map fst (data_vars (contents (parentFile c)))) (h ! attrs_ref v) d"
    by (rule create_variable[OF cr wf' mem' two])
  let ?col = "\<lparr>col_values = py_slice (rows v ! position c) i_min i_max, col_attrs = a\<rparr>"
  from col have ref: "var_attrs_ref ?cds2 n = Inr a" by (simp add: var_attrs_ref_def)
  from assign_Inr[OF asg] obtain D where
    h2: "h2 = h1 @ [h1 ! ds_attrs (contents (parentFile c)), D]" by blast
  from alt have a2: "h2 ! a = h1 ! a" unfolding h2 by (simp add: nth_append)
  from wf have dist: "distinct (map fst (data_vars ds))" by (simp add: wf_archive_def)
  from create_names[OF cr wf'] sc have
    names: "map fst (variables cds) = map fst (two_dim (data_vars ds))" and
    coords: "coord_names cds = [''PRES'']" by simp_all
  from distinct_two_dim[OF dist] names have "distinct (map fst (variables cds))" by simp
  then have 1: "distinct (child_data_vars cds)" by (simp add: child_data_vars_def)
  have 2: "\<forall>n \<in> set (child_data_vars cds). \<forall>m \<in> set (child_data_vars cds). \<forall>a.
             var_attrs_ref ?cds2 n = Inr a \<and> var_attrs_ref ?cds2 m = Inr a \<longrightarrow> n = m"
    using create_refs(2)[OF cr wf'] by auto
  have 3: "\<forall>n \<in> set (child_data_vars cds). \<forall>a. var_attrs_ref ?cds2 n = Inr a \<longrightarrow> a < length h2"
    using create_refs(1)[OF cr wf'] unfolding h2 by fastforce
  from col have "n \<in> set (map fst (variables cds))" by (force dest: map_of_SomeD)
  with coords have inn: "n \<noteq> ''PRES'' \<Longrightarrow> n \<in> set (child_data_vars cds)"
    by (simp add: child_data_vars_def)
  have notpres: "''PRES'' \<notin> set (child_data_vars cds)"
    using coords by (simp add: child_data_vars_def)
  have plain: "h' ! col_attrs ?col = h1 ! col_attrs ?col" if "\<not> data_mode n"
  proof -
    have "\<forall>m \<in> set (child_data_vars cds). data_mode m \<longrightarrow> var_attrs_ref ?cds2 m \<noteq> Inr a"
    proof (intro ballI impI notI)
      fix m assume "data_mode m" "var_attrs_ref ?cds2 m = Inr a"
      with create_refs(2)[OF cr wf', of m a n] ref that show False by simp
    qed
    from encode_frame[OF enc this] a2 show ?thesis by simp
  qed
  have flagged: "\<exists>s. (h1 ! col_attrs ?col) ''flag_values'' = Some (AStr s)
        \<and> h' ! col_attrs ?col = (h1 ! col_attrs ?col)(''flag_values'' \<mapsto> AArr (flag_tokens s))"
    if dm: "data_mode n"
  proof -
    from dm have "n \<noteq> ''PRES''" by (simp add: data_mode_def)
    from encode_flag_values[OF enc 1 2 3 inn[OF this] dm] ref a2 show ?thesis by auto
  qed
  have encd: "map_of (file_encoding f) n = Some (encoding_of n)" if "n \<noteq> ''PRES''"
    using encode_encoding[OF enc, of n] inn[OF that] by simp
  have encp: "map_of (file_encoding f) ''PRES'' = None"
    using encode_encoding[OF enc, of "''PRES''"] notpres by simp
  from col f have colf: "map_of (variables (file_contents f)) n = Some ?col" by simp
  from ha sc have ha': "h1 ! col_attrs ?col = stripped (map fst (data_vars ds)) (h ! attrs_ref v) d"
    by simp
  from plain have plain': "\<not> data_mode n \<longrightarrow> h' ! col_attrs ?col = h1 ! col_attrs ?col"
    by (rule impI)
  from flagged have flagged': "data_mode n \<longrightarrow>
      (\<exists>s. (h1 ! col_attrs ?col) ''flag_values'' = Some (AStr s)
        \<and> h' ! col_attrs ?col = (h1 ! col_attrs ?col)(''flag_values'' \<mapsto> AArr (flag_tokens s)))"
    by (rule impI)
  from encd have encd': "n \<noteq> ''PRES'' \<longrightarrow> map_of (file_encoding f) n = Some (encoding_of n)"
    by (rule impI)
  show ?thesis
    by (rule that[OF c cr col colf d ha' plain' flagged' encd' encp])
qed

lemma station_flag_values:
  assumes parent: "prepare_parent ds = Inr parent"
      and wf: "wf_archive ds h"
      and run: "make_station lib dtnow parent p h = Inr (f, h')"
      and mem: "(n, v) \<in> set (data_vars ds)" and two: "length (dims v) = 2"
      and dm: "contains ''DM'' n"
  shows "\<exists>s col. (h ! attrs_ref v) ''flag_values'' = Some (AStr s)
         \<and> map_of (variables (file_contents f)) n = Some col
         \<and> (h' ! col_attrs col) ''flag_values''
             = Some (AArr (map (filter (\<lambda>c. c \<noteq> CHR '' '')) (split_on (CHR '','') s)))
         \<and> map_of (file_encoding f) n = Some \<lparr>dtype = ''S1'', FillValue = FillStr '' ''\<rparr>"
proof -
  from dm have dmn: "data_mode n" by (simp add: data_mode_iff)
  then have np: "n \<noteq> ''PRES''" by (simp add: data_mode_def)
  obtain c cds h1 col d where
    "child_init lib p parent = Inr c" and
    "create_dataset_with_variables c h = Inr (cds, h1)" and
    "map_of (variables cds) n = Some col" and
    colf: "map_of (variables (file_contents f)) n = Some col" and
    d: "copied_attrs n (h ! attrs_ref v) = Inr d" and
    h1: "h1 ! col_attrs col = stripped (map fst (data_vars ds)) (h ! attrs_ref v) d" and
    pl: "\<not> data_mode n \<longrightarrow> h' ! col_attrs col = h1 ! col_attrs col" and
    fl: "data_mode n \<longrightarrow> (\<exists>s. (h1 ! col_attrs col) ''flag_values'' = Some (AStr s)
        \<and> h' ! col_attrs col = (h1 ! col_attrs col)(''flag_values'' \<mapsto> AArr (flag_tokens s)))" and
    en: "n \<noteq> ''PRES'' \<longrightarrow> map_of (file_encoding f) n = Some (encoding_of n)" and
    ep: "map_of (file_encoding f) ''PRES'' = None"
    by (rule station_variable[OF parent wf run mem two])
  from dm copied_attrs_flagged[of n "h ! attrs_ref v"] d have dd: "d = h ! attrs_ref v" by simp
  from h1 dd have same: "(h1 ! col_attrs col) ''flag_values'' = (h ! attrs_ref v) ''flag_values''"
    by (simp add: stripped_other)
  from fl dmn obtain s where
    s: "(h1 ! col_attrs col) ''flag_values'' = Some (AStr s)" and
    h': "h' ! col_attrs col = (h1 ! col_attrs col)(''flag_values'' \<mapsto> AArr (flag_tokens s))"
    by blast
  from s same have 1: "(h ! attrs_ref v) ''flag_values'' = Some (AStr s)" by simp
  from h' have 2: "(h' ! col_attrs col) ''flag_values''
             = Some (AArr (map (filter (\<lambda>c. c \<noteq> CHR '' '')) (split_on (CHR '','') s)))"
    by (simp add: flag_tokens_eq)
  from en np dm have
    3: "map_of (file_encoding f) n = Some \<lparr>dtype = ''S1'', FillValue = FillStr '' ''\<rparr>"
    by (simp add: encoding_of_def)
  show ?thesis
    by (rule exI[of _ s], rule exI[of _ col]) (intro conjI 1 colf 2 3)
qed

lemma sample_written:
  assumes "prepare_parent sample_archive = Inr parent" and "p < 3"
  shows "\<exists>f h'. make_station lib dtnow parent p sample_heap = Inr (f, h')"
  by (rule make_station_succeeds[OF assms(1) sample_wf sample_ready[OF assms(2)]])

lemma sample_flags:
  "map (filter (\<lambda>c. c \<noteq> CHR '' '')) (split_on (CHR '','') (''R, A,'' @ [CHR 0x09] @ ''D''))
     = [''R'', ''A'', [CHR 0x09, CHR ''D'']]"
  by simp

text \<open>
  Claim C7, amended. A two-dimensional variable whose name contains \<^verbatim>\<open>DM\<close> is written with
  \<^verbatim>\<open>flag_values\<close> replaced by the array of the comma-separated pieces of the parent's
  text, in order, each with its blanks removed and every other character kept, a
  tabulator for instance; its encoding is the type \<^verbatim>\<open>S1\<close> with a blank as fill value. A
  station is written only if the parent's \<^verbatim>\<open>flag_values\<close> is a text.
\<close>

theorem flag_values_become_tokens:
  assumes parent: "prepare_parent ds = Inr parent"
      and wf: "wf_archive ds h"
      and run: "make_station lib dtnow parent p h = Inr (f, h')"
      and mem: "(n, v) \<in> set (data_vars ds)" and two: "length (dims v) = 2"
      and dm: "contains ''DM'' n"
  shows "\<exists>s col. (h ! attrs_ref v) ''flag_values'' = Some (AStr s)
         \<and> map_of (variables (file_contents f)) n = Some col
         \<and> (h' ! col_attrs col) ''flag_values''
             = Some (AArr (map (filter (\<lambda>c. c \<noteq> CHR '' '')) (split_on (CHR '','') s)))
         \<and> map_of (file_encoding f) n = Some \<lparr>dtype = ''S1'', FillValue = FillStr '' ''\<rparr>"
  by (rule station_flag_values[OF parent wf run mem two dm])

theorem flag_values_become_tokens_witness:
  "\<exists>parent f h' col.
      prepare_parent sample_archive = Inr parent
    \<and> wf_archive sample_archive sample_heap
    \<and> make_station sample_lib (sample_clock 0) parent 0 sample_heap = Inr (f, h')
    \<and> (sample_heap ! 4) ''flag_values'' = Some (AStr (''R, A,'' @ [CHR 0x09] @ ''D''))
    \<and> map_of (variables (file_contents f)) ''PRES_DM'' = Some col
    \<and> (h' ! col_attrs col) ''flag_values'' = Some (AArr [''R'', ''A'', [CHR 0x09, CHR ''D'']])
    \<and> map_of (file_encoding f) ''PRES_DM''
        = Some \<lparr>dtype = ''S1'', FillValue = FillStr '' ''\<rparr>"
proof -
  from sample_parent obtain parent where
    parent: "prepare_parent sample_archive = Inr parent" ..
  from sample_written[OF parent, of 0 sample_lib "sample_clock 0"] obtain f h' where
    run: "make_station sample_lib (sample_clock 0) parent 0 sample_heap = Inr (f, h')"
    by auto
  let ?v = "\<lparr>dims = [''POSITION'', ''PRES_LEVEL''],
             rows = [[Finite 82, Finite 82, Finite 82, Finite 82, NaN],
                     [Finite 82, Finite 82, Finite 82, Finite 82, NaN],
                     [Finite 82, Finite 82, Finite 82, Finite 82, NaN]],
             attrs_ref = 4\<rparr>"
  have mem: "(''PRES_DM'', ?v) \<in> set (data_vars sample_archive)"
    by (simp add: sample_archive_def)
  have two: "length (dims ?v) = 2" by simp
  have dm: "contains ''DM'' ''PRES_DM''" by simp
  have fv: "(sample_heap ! 4) ''flag_values'' = Some (AStr (''R, A,'' @ [CHR 0x09] @ ''D''))"
    by (simp add: sample_heap_def pres_dm_attrs_def)
  from flag_values_become_tokens[OF parent sample_wf run mem two dm]
  obtain s col where
    s: "(sample_heap ! attrs_ref ?v) ''flag_values'' = Some (AStr s)" and
    col: "map_of (variables (file_contents f)) ''PRES_DM'' = Some col" and
    arr: "(h' ! col_attrs col) ''flag_values''
             = Some (AArr (map (filter (\<lambda>c. c \<noteq> CHR '' '')) (split_on (CHR '','') s)))" and
    enc: "map_of (file_encoding f) ''PRES_DM''
            = Some \<lparr>dtype = ''S1'', FillValue = FillStr '' ''\<rparr>"
    by (elim exE conjE) (rule that)
  from s fv have "s = ''R, A,'' @ [CHR 0x09] @ ''D''" by simp
  with arr have arr': "(h' ! col_attrs col) ''flag_values''
      = Some (AArr [''R'', ''A'', [CHR 0x09, CHR ''D'']])"
    by (simp only: sample_flags)
  show ?thesis
    by (rule exI[of _ parent], rule exI[of _ f], rule exI[of _ h'], rule exI[of _ col])
       (intro conjI parent sample_wf run fv col arr' enc)
qed

text \<open>
  The claim as it was stated, with all white space removed, does not hold: in the second
  sample station the third flag is written with its tabulator.
\<close>

theorem flag_values_keep_tabulator:
  "\<exists>parent f h' col flags.
      prepare_parent sample_archive = Inr parent
    \<and> make_station sample_lib (sample_clock 1) parent 1 sample_heap = Inr (f, h')
    \<and> map_of (variables (file_contents f)) ''PRES_DM'' = Some col
    \<and> (h' ! col_attrs col) ''flag_values'' = Some (AArr flags)
    \<and> flags ! 2 = [CHR 0x09, CHR ''D'']"
proof -
  from sample_parent obtain parent where
    parent: "prepare_parent sample_archive = Inr parent" ..
  from sample_written[OF parent, of 1 sample_lib "sample_clock 1"] obtain f h' where
    run: "make_station sample_lib (sample_clock 1) parent 1 sample_heap = Inr (f, h')"
    by auto
  let ?v = "\<lparr>dims = [''POSITION'', ''PRES_LEVEL''],
             rows = [[Finite 82, Finite 82, Finite 82, Finite 82, NaN],
                     [Finite 82, Finite 82, Finite 82, Finite 82, NaN],
                     [Finite 82, Finite 82, Finite 82, Finite 82, NaN]],
             attrs_ref = 4\<rparr>"
  have mem: "(''PRES_DM'', ?v) \<in> set (data_vars sample_archive)"
    by (simp add: sample_archive_def)
  have two: "length (dims ?v) = 2" by simp
  have dm: "contains ''DM'' ''PRES_DM''" by simp
  have fv: "(sample_heap ! 4) ''flag_values'' = Some (AStr (''R, A,'' @ [CHR 0x09] @ ''D''))"
    by (simp add: sample_heap_def pres_dm_attrs_def)
  from station_flag_values[OF parent sample_wf run mem two dm]
  obtain s col where
    s: "(sample_heap ! attrs_ref ?v) ''flag_values'' = Some (AStr s)" and
    col: "map_of (variables (file_contents f)) ''PRES_DM'' = Some col" and
    arr: "(h' ! col_attrs col) ''flag_values''
             = Some (AArr (map (filter (\<lambda>c. c \<noteq> CHR '' '')) (split_on (CHR '','') s)))"
    by (elim exE conjE) (rule that)
  from s fv have "s = ''R, A,'' @ [CHR 0x09] @ ''D''" by simp
  with arr have arr': "(h' ! col_attrs col) ''flag_values''
      = Some (AArr [''R'', ''A'', [CHR 0x09, CHR ''D'']])"
    by (simp only: sample_flags)
  have third: "[''R'', ''A'', [CHR 0x09, CHR ''D'']] ! 2 = [CHR 0x09, CHR ''D'']" by simp
  show ?thesis
    by (rule exI[of _ parent], rule exI[of _ f], rule exI[of _ h'], rule exI[of _ col],
        rule exI[of _ "[''R'', ''A'', [CHR 0x09, CHR ''D'']]"])
       (intro conjI parent run col arr' third)
qed


lemma pressure_variable:
  assumes "prepare_parent ds = Inr parent"
  shows "\<exists>v. (''PRES'', v) \<in> set (data_vars ds) \<and> length (dims v) = 2"
proof -
  from assms obtain rs where "pressure_rows ds = Inr rs" by (auto simp: prepare_parent_Inr)
  then obtain v where "map_of (data_vars ds) ''PRES'' = Some v" "length (dims v) = 2"
    unfolding pressure_rows_def by (auto split: option.splits if_splits)
  then show ?thesis by (auto dest: map_of_SomeD)
qed

text \<open>
  Claim C9. The encoding that is handed to the writer: no entry for \<^verbatim>\<open>PRES\<close>, which is a
  variable of the written dataset but, as a coordinate, not one of its data variables, so
  that the branch for it is never taken; for every other two-dimensional variable the
  character type when the name contains \<^verbatim>\<open>DM\<close>, else the byte type when it contains
  \<^verbatim>\<open>QC\<close>, else the float type with the large negative fill value. The same two tests on
  the name exempt a variable from the rescaling of its bounds.
\<close>

theorem encoding_follows_precedence:
  assumes parent: "prepare_parent ds = Inr parent"
      and wf: "wf_archive ds h"
      and run: "make_station lib dtnow parent p h = Inr (f, h')"
      and mem: "(n, v) \<in> set (data_vars ds)" and two: "length (dims v) = 2"
  shows "''PRES'' \<in> set (map fst (variables (file_contents f)))
       \<and> map_of (file_encoding f) ''PRES'' = None
       \<and> (n \<noteq> ''PRES'' \<longrightarrow>
            map_of (file_encoding f) n =
              Some (if contains ''DM'' n then \<lparr>dtype = ''S1'', FillValue = FillStr '' ''\<rparr>
                    else if contains ''QC'' n
                      then \<lparr>dtype = ''int8'', FillValue = FillInt (- 127)\<rparr>
                    else \<lparr>dtype = ''float32'', FillValue = FillInt (- 2147483647)\<rparr>))
       \<and> (contains ''QC'' n \<or> contains ''DM'' n \<longrightarrow>
            (\<exists>col. map_of (variables (file_contents f)) n = Some col
               \<and> (h' ! col_attrs col) ''valid_min'' = (h ! attrs_ref v) ''valid_min''
               \<and> (h' ! col_attrs col) ''valid_max'' = (h ! attrs_ref v) ''valid_max''))"
proof (intro conjI impI)
  from pressure_variable[OF parent] obtain pv where
    pm: "(''PRES'', pv) \<in> set (data_vars ds)" and pt: "length (dims pv) = 2" by blast
  obtain c cds h1 col d where
    "child_init lib p parent = Inr c" and
    "create_dataset_with_variables c h = Inr (cds, h1)" and
    "map_of (variables cds) ''PRES'' = Some col" and
    colf: "map_of (variables (file_contents f)) ''PRES'' = Some col" and
    "copied_attrs ''PRES'' (h ! attrs_ref pv) = Inr d" and
    "h1 ! col_attrs col = stripped (map fst (data_vars ds)) (h ! attrs_ref pv) d" and
    "\<not> data_mode ''PRES'' \<longrightarrow> h' ! col_attrs col = h1 ! col_attrs col" and
    "data_mode ''PRES'' \<longrightarrow> (\<exists>s. (h1 ! col_attrs col) ''flag_values'' = Some (AStr s)
        \<and> h' ! col_attrs col = (h1 ! col_attrs col)(''flag_values'' \<mapsto> AArr (flag_tokens s)))" and
    "''PRES'' \<noteq> ''PRES'' \<longrightarrow> map_of (file_encoding f) ''PRES'' = Some (encoding_of ''PRES'')" and
    ep: "map_of (file_encoding f) ''PRES'' = None"
    by (rule station_variable[OF parent wf run pm pt])
  from colf show "''PRES'' \<in> set (map fst (variables (file_contents f)))"
    by (force dest: map_of_SomeD)
  from ep show "map_of (file_encoding f) ''PRES'' = None" .
next
  obtain c cds h1 col d where
    "child_init lib p parent = Inr c" and
    "create_dataset_with_variables c h = Inr (cds, h1)" and
    "map_of (variables cds) n = Some col" and
    colf: "map_of (variables (file_contents f)) n = Some col" and
    d: "copied_attrs n (h ! attrs_ref v) = Inr d" and
    h1: "h1 ! col_attrs col = stripped (map fst (data_vars ds)) (h ! attrs_ref v) d" and
    pl: "\<not> data_mode n \<longrightarrow> h' ! col_attrs col = h1 ! col_attrs col" and
    fl: "data_mode n \<longrightarrow> (\<exists>s. (h1 ! col_attrs col) ''flag_values'' = Some (AStr s)
        \<and> h' ! col_attrs col = (h1 ! col_attrs col)(''flag_values'' \<mapsto> AArr (flag_tokens s)))" and
    en: "n \<noteq> ''PRES'' \<longrightarrow> map_of (file_encoding f) n = Some (encoding_of n)" and
    ep: "map_of (file_encoding f) ''PRES'' = None"
    by (rule station_variable[OF parent wf run mem two])
  {
    assume "n \<noteq> ''PRES''"
    with en show "map_of (file_encoding f) n =
              Some (if contains ''DM'' n then \<lparr>dtype = ''S1'', FillValue = FillStr '' ''\<rparr>
                    else if contains ''QC'' n
                      then \<lparr>dtype = ''int8'', FillValue = FillInt (- 127)\<rparr>
                    else \<lparr>dtype = ''float32'', FillValue = FillInt (- 2147483647)\<rparr>)"
      by (simp add: encoding_of_def)
  }
  {
    assume fl': "contains ''QC'' n \<or> contains ''DM'' n"
    from copied_attrs_flagged[OF this, of "h ! attrs_ref v"] d have dd: "d = h ! attrs_ref v"
      by simp
    have keep: "(h' ! col_attrs col) k = (h ! attrs_ref v) k"
      if "k \<noteq> ''ancillary_variables''" "k \<noteq> ''flag_values''" for k
    proof (cases "data_mode n")
      case True
      with fl obtain s where
        "h' ! col_attrs col = (h1 ! col_attrs col)(''flag_values'' \<mapsto> AArr (flag_tokens s))"
        by blast
      with that h1 dd show ?thesis by (simp add: stripped_other)
    next
      case False
      with pl have "h' ! col_attrs col = h1 ! col_attrs col" by simp
      with that h1 dd show ?thesis by (simp add: stripped_other)
    qed
    have "(h' ! col_attrs col) ''valid_min'' = (h ! attrs_ref v) ''valid_min''"
      "(h' ! col_attrs col) ''valid_max'' = (h ! attrs_ref v) ''valid_max''"
      by (rule keep; simp)+
    with colf show "\<exists>col. map_of (variables (file_contents f)) n = Some col
               \<and> (h' ! col_attrs col) ''valid_min'' = (h ! attrs_ref v) ''valid_min''
               \<and> (h' ! col_attrs col) ''valid_max'' = (h ! attrs_ref v) ''valid_max''"
      by blast
  }
qed

theorem encoding_follows_precedence_witness:
  "\<exists>parent f h' col.
      prepare_parent sample_archive = Inr parent
    \<and> wf_archive sample_archive sample_heap
    \<and> make_station sample_lib (sample_clock 0) parent 0 sample_heap = Inr (f, h')
    \<and> ''PRES'' \<in> set (map fst (variables (file_contents f)))
    \<and> map_of (file_encoding f) ''PRES'' = None
    \<and> map_of (file_encoding f) ''TEMP_QC''
         = Some \<lparr>dtype = ''int8'', FillValue = FillInt (- 127)\<rparr>
    \<and> map_of (variables (file_contents f)) ''TEMP_QC'' = Some col
    \<and> (h' ! col_attrs col) ''valid_max'' = Some (ANum (Finite 9))"
proof -
  from sample_parent obtain parent where
    parent: "prepare_parent sample_archive = Inr parent" ..
  from sample_written[OF parent, of 0 sample_lib "sample_clock 0"] obtain f h' where
    run: "make_station sample_lib (sample_clock 0) parent 0 sample_heap = Inr (f, h')"
    by auto
  let ?v = "\<lparr>dims = [''POSITION'', ''PRES_LEVEL''],
             rows = [[Finite 1, Finite 1, Finite 1, Finite 1, NaN],
                     [Finite 1, Finite 1, Finite 4, Finite 1, NaN],
                     [Finite 1, Finite 1, Finite 1, Finite 1, NaN]], attrs_ref = 3\<rparr>"
  have mem: "(''TEMP_QC'', ?v) \<in> set (data_vars sample_archive)"
    by (simp add: sample_archive_def)
  have two: "length (dims ?v) = 2" by simp
  note t = encoding_follows_precedence[OF parent sample_wf run mem two]
  from t have 1: "''PRES'' \<in> set (map fst (variables (file_contents f)))"
    by (rule conjunct1)
  from t have 2: "map_of (file_encoding f) ''PRES'' = None"
    by (rule conjunct2[THEN conjunct1])
  from t have "''TEMP_QC'' \<noteq> ''PRES'' \<longrightarrow>
            map_of (file_encoding f) ''TEMP_QC'' =
              Some (if contains ''DM'' ''TEMP_QC''
                    then \<lparr>dtype = ''S1'', FillValue = FillStr '' ''\<rparr>
                    else if contains ''QC'' ''TEMP_QC''
                      then \<lparr>dtype = ''int8'', FillValue = FillInt (- 127)\<rparr>
                    else \<lparr>dtype = ''float32'', FillValue = FillInt (- 2147483647)\<rparr>)"
    by (rule conjunct2[THEN conjunct2, THEN conjunct1])
  then have 3: "map_of (file_encoding f) ''TEMP_QC''
         = Some \<lparr>dtype = ''int8'', FillValue = FillInt (- 127)\<rparr>" by simp
  from t have "contains ''QC'' ''TEMP_QC'' \<or> contains ''DM'' ''TEMP_QC'' \<longrightarrow>
            (\<exists>col. map_of (variables (file_contents f)) ''TEMP_QC'' = Some col
               \<and> (h' ! col_attrs col) ''valid_min'' = (sample_heap ! attrs_ref ?v) ''valid_min''
               \<and> (h' ! col_attrs col) ''valid_max'' = (sample_heap ! attrs_ref ?v) ''valid_max'')"
    by (rule conjunct2[THEN conjunct2, THEN conjunct2])
  moreover have "contains ''QC'' ''TEMP_QC''" by simp
  ultimately obtain col where
    col: "map_of (variables (file_contents f)) ''TEMP_QC'' = Some col" and
    "(h' ! col_attrs col) ''valid_max'' = (sample_heap ! attrs_ref ?v) ''valid_max''"
    by blast
  then have 4: "(h' ! col_attrs col) ''valid_max'' = Some (ANum (Finite 9))"
    by (simp add: sample_heap_def temp_qc_attrs_def)
  show ?thesis
    by (rule exI[of _ parent], rule exI[of _ f], rule exI[of _ h'], rule exI[of _ col])
       (intro conjI parent sample_wf run 1 2 3 col 4)
qed


subsection \<open>The repaired global attributes\<close>

lemma del_all_frame:
  "del_all a ks h = Inr h' \<Longrightarrow> k \<notin> set ks \<Longrightarrow> (h' ! a) k = (h ! a) k"
proof (induction ks arbitrary: h)
  case Nil
  then show ?case by simp
next
  case (Cons k' ks)
  from Cons.prems(1) obtain h1
    where d: "attrs_del a k' h = Inr h1" and r: "del_all a ks h1 = Inr h'"
    by (auto simp: and_then_eq_Inr)
  from Cons.prems(2) have "k \<noteq> k'" "k \<notin> set ks" by simp_all
  with Cons.IH[OF r] attrs_del_lookup_other[OF d] show ?case by simp
qed

lemma repair_texts:
  assumes run: "add_change_drop_gloabl_attributes lib ds h = Inr h'"
      and g: "ds_attrs ds < length h"
  shows "\<exists>doi summ. (h ! ds_attrs ds) ''doi'' = Some (AStr doi)
        \<and> (h ! ds_attrs ds) ''summary'' = Some (AStr summ)
        \<and> (h' ! ds_attrs ds) ''acknowledgement'' = Some (AStr (acknowledgement_text doi))
        \<and> (h' ! ds_attrs ds) ''summary'' = Some (AStr (summ @ summary_suffix))"
proof -
  from run g obtain h10 doi summ where
    doi: "(h ! ds_attrs ds) ''doi'' = Some (AStr doi)" and
    summ: "(h ! ds_attrs ds) ''summary'' = Some (AStr summ)" and
    d: "del_all (ds_attrs ds) unwanted_atts h10 = Inr h'" and
    ack10: "(h10 ! ds_attrs ds) ''acknowledgement'' = Some (AStr (acknowledgement_text doi))" and
    sum10: "(h10 ! ds_attrs ds) ''summary'' = Some (AStr (summ @ summary_suffix))"
    unfolding add_change_drop_gloabl_attributes_def Let_def and_then_eq_Inr
    by (fastforce simp: attrs_set_lookup_same format_value_def)
  have "''acknowledgement'' \<notin> set unwanted_atts" "''summary'' \<notin> set unwanted_atts"
    by (simp_all add: unwanted_atts_def)
  with del_all_frame[OF d] ack10 sum10 have
    "(h' ! ds_attrs ds) ''acknowledgement'' = Some (AStr (acknowledgement_text doi))"
    "(h' ! ds_attrs ds) ''summary'' = Some (AStr (summ @ summary_suffix))" by simp_all
  with doi summ show ?thesis by blast
qed

lemma del_all_succeeds:
  "distinct ks \<Longrightarrow> \<forall>k \<in> set ks. (h ! a) k \<noteq> None \<Longrightarrow> \<exists>h'. del_all a ks h = Inr h'"
proof (induction ks arbitrary: h)
  case Nil
  then show ?case by simp
next
  case (Cons k ks)
  from Cons.prems(2) obtain h1 where d: "attrs_del a k h = Inr h1"
    by (auto simp: attrs_del_eq_Inr)
  have "\<forall>k' \<in> set ks. (h1 ! a) k' \<noteq> None"
  proof
    fix k' assume k': "k' \<in> set ks"
    with Cons.prems(1) have "k' \<noteq> k" by auto
    from attrs_del_lookup_other[OF d this] Cons.prems(2) k' show "(h1 ! a) k' \<noteq> None" by simp
  qed
  with Cons.IH[of h1] Cons.prems(1) obtain h' where "del_all a ks h1 = Inr h'" by auto
  with d show ?case by simp
qed

lemma repair_succeeds:
  assumes g: "ds_attrs ds < length h"
      and doi: "(h ! ds_attrs ds) ''doi'' = Some (AStr d)"
      and summ: "(h ! ds_attrs ds) ''summary'' = Some (AStr s)"
      and cn: "(h ! ds_attrs ds) ''creator_name'' = Some n"
      and cu: "(h ! ds_attrs ds) ''creator_url'' = Some u"
      and unw: "\<forall>k \<in> set unwanted_atts. (h ! ds_attrs ds) k \<noteq> None"
  shows "\<exists>h'. add_change_drop_gloabl_attributes lib ds h = Inr h'"
proof -
  have dist: "distinct unwanted_atts" by (simp add: unwanted_atts_def)
  have "\<exists>h10. add_change_drop_gloabl_attributes lib ds h
                 = del_all (ds_attrs ds) unwanted_atts h10
             \<and> (\<forall>k \<in> set unwanted_atts. (h10 ! ds_attrs ds) k = (h ! ds_attrs ds) k)"
    unfolding add_change_drop_gloabl_attributes_def Let_def
    using g doi summ cn cu
    apply (simp add: attrs_get_def attrs_get_str_def attrs_set_lookup_same)
    apply (rule exI, rule conjI, rule refl)
    apply (simp add: unwanted_atts_def)
    done
  then obtain h10 where
    eq: "add_change_drop_gloabl_attributes lib ds h = del_all (ds_attrs ds) unwanted_atts h10"
    and same: "\<forall>k \<in> set unwanted_atts. (h10 ! ds_attrs ds) k = (h ! ds_attrs ds) k"
    by blast
  from same unw have "\<forall>k \<in> set unwanted_atts. (h10 ! ds_attrs ds) k \<noteq> None" by simp
  from del_all_succeeds[OF dist this] eq show ?thesis by simp
qed

text \<open>
  Claim C3. The repair appends a sentence to the summary and writes an acknowledgement.
  The acknowledgement is built by interpolation and contains the value of \<^verbatim>\<open>doi\<close>. The
  sentence appended to the summary is the same template written as a plain text, without
  the prefix that makes Python interpolate it: the repaired summary is the former one
  followed by the template itself, in which the expression in braces stands where the
  value of \<^verbatim>\<open>doi\<close> was meant to be.
\<close>

theorem summary_keeps_placeholder:
  assumes run: "add_change_drop_gloabl_attributes lib ds h = Inr h'"
      and g: "ds_attrs ds < length h"
  shows "\<exists>doi summ. (h ! ds_attrs ds) ''doi'' = Some (AStr doi)
        \<and> (h ! ds_attrs ds) ''summary'' = Some (AStr summ)
        \<and> (h' ! ds_attrs ds) ''acknowledgement'' = Some (AStr (acknowledgement_text doi))
        \<and> contains doi (acknowledgement_text doi)
        \<and> (h' ! ds_attrs ds) ''summary''
            = Some (AStr (summ
                @ '' These data are created from the CTD data published by NMDC for the whole cruise ({self.contents.attrs[''
                @ [CHR 0x22] @ ''doi'' @ [CHR 0x22]
                @ '']}). The values have not be changed.''))"
proof -
  from repair_texts[OF run g] obtain doi summ where
    1: "(h ! ds_attrs ds) ''doi'' = Some (AStr doi)" and
    2: "(h ! ds_attrs ds) ''summary'' = Some (AStr summ)" and
    3: "(h' ! ds_attrs ds) ''acknowledgement'' = Some (AStr (acknowledgement_text doi))" and
    4: "(h' ! ds_attrs ds) ''summary'' = Some (AStr (summ @ summary_suffix))"
    by (elim exE conjE) (rule that)
  have 5: "contains doi (acknowledgement_text doi)"
    unfolding acknowledgement_text_def by (rule contains_append)
  from 4 have 6: "(h' ! ds_attrs ds) ''summary''
            = Some (AStr (summ
                @ '' These data are created from the CTD data published by NMDC for the whole cruise ({self.contents.attrs[''
                @ [CHR 0x22] @ ''doi'' @ [CHR 0x22]
                @ '']}). The values have not be changed.''))"
    unfolding summary_suffix_def .
  show ?thesis by (rule exI[of _ doi], rule exI[of _ summ]) (intro conjI 1 2 3 5 6)
qed

lemma sample_repair:
  "\<exists>h'. add_change_drop_gloabl_attributes sample_lib sample_archive sample_heap = Inr h'"
proof (rule repair_succeeds)
  show "ds_attrs sample_archive < length sample_heap"
    by (simp add: sample_archive_def sample_heap_def)
  show "(sample_heap ! ds_attrs sample_archive) ''doi'' = Some (AStr ''10.21335/NMDC-1'')"
    by (simp add: sample_archive_def sample_heap_def sample_globals_def)
  show "(sample_heap ! ds_attrs sample_archive) ''summary'' = Some (AStr ''CTD data.'')"
    by (simp add: sample_archive_def sample_heap_def sample_globals_def)
  show "(sample_heap ! ds_attrs sample_archive) ''creator_name'' = Some (AStr ''IMR'')"
    by (simp add: sample_archive_def sample_heap_def sample_globals_def)
  show "(sample_heap ! ds_attrs sample_archive) ''creator_url''
          = Some (AStr ''https://www.hi.no'')"
    by (simp add: sample_archive_def sample_heap_def sample_globals_def)
  show "\<forall>k \<in> set unwanted_atts. (sample_heap ! ds_attrs sample_archive) k \<noteq> None"
    by (simp add: unwanted_atts_def sample_archive_def sample_heap_def sample_globals_def)
qed

lemma sample_summary_lacks_doi:
  "\<not> contains ''10.21335/NMDC-1''
       (''CTD data.''
        @ '' These data are created from the CTD data published by NMDC for the whole cruise ({self.contents.attrs[''
        @ [CHR 0x22] @ ''doi'' @ [CHR 0x22]
        @ '']}). The values have not be changed.'')"
  by simp

theorem summary_keeps_placeholder_witness:
  "\<exists>h'. add_change_drop_gloabl_attributes sample_lib sample_archive sample_heap = Inr h'
     \<and> ds_attrs sample_archive < length sample_heap
     \<and> (sample_heap ! ds_attrs sample_archive) ''doi'' = Some (AStr ''10.21335/NMDC-1'')
     \<and> (sample_heap ! ds_attrs sample_archive) ''summary'' = Some (AStr ''CTD data.'')
     \<and> (h' ! ds_attrs sample_archive) ''acknowledgement''
          = Some (AStr (acknowledgement_text ''10.21335/NMDC-1''))
     \<and> (h' ! ds_attrs sample_archive) ''summary''
          = Some (AStr (''CTD data.''
              @ '' These data are created from the CTD data published by NMDC for the whole cruise ({self.contents.attrs[''
              @ [CHR 0x22] @ ''doi'' @ [CHR 0x22]
              @ '']}). The values have not be changed.''))
     \<and> \<not> contains ''10.21335/NMDC-1''
          (''CTD data.''
           @ '' These data are created from the CTD data published by NMDC for the whole cruise ({self.contents.attrs[''
           @ [CHR 0x22] @ ''doi'' @ [CHR 0x22]
           @ '']}). The values have not be changed.'')"
proof -
  from sample_repair obtain h' where
    run: "add_change_drop_gloabl_attributes sample_lib sample_archive sample_heap = Inr h'" ..
  have g: "ds_attrs sample_archive < length sample_heap"
    by (simp add: sample_archive_def sample_heap_def)
  have doi: "(sample_heap ! ds_attrs sample_archive) ''doi'' = Some (AStr ''10.21335/NMDC-1'')"
    by (simp add: sample_archive_def sample_heap_def sample_globals_def)
  have summ: "(sample_heap ! ds_attrs sample_archive) ''summary'' = Some (AStr ''CTD data.'')"
    by (simp add: sample_archive_def sample_heap_def sample_globals_def)
  from summary_keeps_placeholder[OF run g] obtain d s where
    1: "(sample_heap ! ds_attrs sample_archive) ''doi'' = Some (AStr d)" and
    2: "(sample_heap ! ds_attrs sample_archive) ''summary'' = Some (AStr s)" and
    3: "(h' ! ds_attrs sample_archive) ''acknowledgement''
          = Some (AStr (acknowledgement_text d))" and
    4: "contains d (acknowledgement_text d)" and
    5: "(h' ! ds_attrs sample_archive) ''summary''
            = Some (AStr (s
                @ '' These data are created from the CTD data published by NMDC for the whole cruise ({self.contents.attrs[''
                @ [CHR 0x22] @ ''doi'' @ [CHR 0x22]
                @ '']}). The values have not be changed.''))"
    by (elim exE conjE) (rule that)
  from 1 doi have d: "d = ''10.21335/NMDC-1''" by simp
  from 2 summ have s: "s = ''CTD data.''" by simp
  note ack = 3[unfolded d]
  note sm = 5[unfolded s]
  show ?thesis
    by (rule exI[of _ h']) (intro conjI run g doi summ ack sm sample_summary_lacks_doi)
qed


subsection \<open>The references to ancillary variables\<close>

lemma strip_tokens_fold:
  "d ''ancillary_variables'' = Some (AStr s) \<Longrightarrow>
   strip_tokens names avs d ''ancillary_variables''
     = Some (AStr (foldl (\<lambda>t av. str_replace av [] t) s
                     (filter (\<lambda>av. av \<notin> set names) avs)))"
  by (induction avs arbitrary: d s) simp_all

lemma copied_attrs_ancillary:
  assumes "copied_attrs n pd = Inr d"
  shows "d ''ancillary_variables'' = pd ''ancillary_variables''"
proof (cases "contains ''QC'' n \<or> contains ''DM'' n")
  case True
  from copied_attrs_flagged[OF this, of pd] assms show ?thesis by simp
next
  case False
  then have "\<not> contains ''QC'' n" "\<not> contains ''DM'' n" by simp_all
  from copied_attrs_physical(3)[OF assms this, of "''ancillary_variables''"]
  show ?thesis by simp
qed

lemma station_ancillary:
  assumes parent: "prepare_parent ds = Inr parent"
      and wf: "wf_archive ds h"
      and c: "child_init lib p parent = Inr c"
      and ok: "create_dataset_with_variables c h = Inr (cds, h')"
      and mem: "(n, v) \<in> set (data_vars ds)" and two: "length (dims v) = 2"
      and anc: "(h ! attrs_ref v) ''ancillary_variables'' = Some (AStr s)"
  shows "\<exists>col. map_of (variables cds) n = Some col
         \<and> (h' ! col_attrs col) ''ancillary_variables''
             = Some (AStr (foldl (\<lambda>t av. str_replace av [] t) s
                     (filter (\<lambda>av. av \<notin> set (map fst (data_vars ds)))
                        (split_on (CHR '' '') s))))"
proof -
  note sc = station_child[OF parent c]
  from wf sc have wf': "wf_archive (contents (parentFile c)) h" by simp
  from mem sc have mem': "(n, v) \<in> set (data_vars (contents (parentFile c)))" by simp
  obtain row i_min i_max d a where
    "pressure_row (contents (parentFile c)) (position c) = Inr row" and
    "py_index row (min_pressure c) = Inr i_min" and
    "py_index row (max_pressure c) = Inr i_max" and
    "position c < length (rows v)" and
    col: "map_of (variables cds) n =
       Some \<lparr>col_values = py_slice (rows v ! position c) i_min i_max, col_attrs = a\<rparr>" and
    "length h \<le> a" "a < length h'" and
    d: "copied_attrs n (h ! attrs_ref v) = Inr d" and
    ha: "h' ! a = stripped (map fst (data_vars (contents (parentFile c)))) (h ! attrs_ref v) d"
    by (rule create_variable[OF ok wf' mem' two])
  let ?col = "\<lparr>col_values = py_slice (rows v ! position c) i_min i_max, col_attrs = a\<rparr>"
  from copied_attrs_ancillary[OF d] anc have da: "d ''ancillary_variables'' = Some (AStr s)"
    by simp
  from strip_tokens_fold[of d s "map fst (data_vars ds)" "split_on (CHR '' '') s", OF da]
    ha anc sc
  have "(h' ! col_attrs ?col) ''ancillary_variables''
             = Some (AStr (foldl (\<lambda>t av. str_replace av [] t) s
                     (filter (\<lambda>av. av \<notin> set (map fst (data_vars ds)))
                        (split_on (CHR '' '') s))))"
    by (simp add: stripped_def)
  with col show ?thesis by (intro exI[of _ ?col] conjI)
qed

lemma sample_references:
  "foldl (\<lambda>t av. str_replace av [] t) ''TEMP_QC BOT_DEPTH TEMP_ERR''
     (filter (\<lambda>av. av \<notin> set (map fst (data_vars sample_archive)))
        (split_on (CHR '' '') ''TEMP_QC BOT_DEPTH TEMP_ERR''))
   = ''TEMP_QC BOT_DEPTH ''"
  by (simp add: sample_archive_def)

text \<open>
  Claim C2, amended. When the parent of a two-dimensional variable has a textual
  \<^verbatim>\<open>ancillary_variables\<close>, the station variable gets the text that is left after going
  through the blank-separated names of the parent's text, in order, and deleting every
  occurrence of each name that is not a data variable of the parent archive. The test is
  on the parent archive, not on the station: a name of a parent variable that is not
  carried over stays. The deletion is that of a piece of text: the blanks around a deleted
  name stay, and a deleted name that is part of another name is deleted there too.
\<close>

theorem ancillary_references_are_filtered:
  assumes parent: "prepare_parent ds = Inr parent"
      and wf: "wf_archive ds h"
      and c: "child_init lib p parent = Inr c"
      and ok: "create_dataset_with_variables c h = Inr (cds, h')"
      and mem: "(n, v) \<in> set (data_vars ds)" and two: "length (dims v) = 2"
      and anc: "(h ! attrs_ref v) ''ancillary_variables'' = Some (AStr s)"
  shows "\<exists>col. map_of (variables cds) n = Some col
         \<and> (h' ! col_attrs col) ''ancillary_variables''
             = Some (AStr (foldl (\<lambda>t av. str_replace av [] t) s
                     (filter (\<lambda>av. av \<notin> set (map fst (data_vars ds)))
                        (split_on (CHR '' '') s))))"
  by (rule station_ancillary[OF parent wf c ok mem two anc])

theorem ancillary_references_are_filtered_witness:
  "\<exists>parent c cds h' col.
      prepare_parent sample_archive = Inr parent
    \<and> wf_archive sample_archive sample_heap
    \<and> child_init sample_lib 1 parent = Inr c
    \<and> create_dataset_with_variables c sample_heap = Inr (cds, h')
    \<and> (sample_heap ! 2) ''ancillary_variables'' = Some (AStr ''TEMP_QC BOT_DEPTH TEMP_ERR'')
    \<and> map_of (variables cds) ''TEMP'' = Some col
    \<and> (h' ! col_attrs col) ''ancillary_variables'' = Some (AStr ''TEMP_QC BOT_DEPTH '')"
proof -
  from sample_parent obtain parent where
    parent: "prepare_parent sample_archive = Inr parent" ..
  from sample_station[OF parent, of 1 sample_lib] obtain c cds h' where
    c: "child_init sample_lib 1 parent = Inr c" and
    ok: "create_dataset_with_variables c sample_heap = Inr (cds, h')" by auto
  let ?v = "\<lparr>dims = [''POSITION'', ''PRES_LEVEL''],
             rows = [[Finite 1, Finite 2, Finite 3, Finite 4, NaN],
                     [Finite 5, Finite 6, Finite 7, Finite 8, NaN],
                     [Finite 4, Finite 3, Finite 2, Finite 1, NaN]], attrs_ref = 2\<rparr>"
  have mem: "(''TEMP'', ?v) \<in> set (data_vars sample_archive)"
    by (simp add: sample_archive_def)
  have two: "length (dims ?v) = 2" by simp
  have anc: "(sample_heap ! 2) ''ancillary_variables''
               = Some (AStr ''TEMP_QC BOT_DEPTH TEMP_ERR'')"
    by (simp add: sample_heap_def temp_attrs_def)
  then have anc': "(sample_heap ! attrs_ref ?v) ''ancillary_variables''
               = Some (AStr ''TEMP_QC BOT_DEPTH TEMP_ERR'')" by simp
  from ancillary_references_are_filtered[OF parent sample_wf c ok mem two anc']
  obtain col where
    col: "map_of (variables cds) ''TEMP'' = Some col" and
    r: "(h' ! col_attrs col) ''ancillary_variables''
             = Some (AStr (foldl (\<lambda>t av. str_replace av [] t) ''TEMP_QC BOT_DEPTH TEMP_ERR''
                     (filter (\<lambda>av. av \<notin> set (map fst (data_vars sample_archive)))
                        (split_on (CHR '' '') ''TEMP_QC BOT_DEPTH TEMP_ERR''))))"
    by (elim exE conjE) (rule that)
  note r' = r[unfolded sample_references]
  show ?thesis
    by (rule exI[of _ parent], rule exI[of _ c], rule exI[of _ cds], rule exI[of _ h'],
        rule exI[of _ col])
       (intro conjI parent sample_wf c ok anc col r')
qed

text \<open>
  The claim as it was stated does not hold: \<^verbatim>\<open>BOT_DEPTH\<close> has one dimension and is not
  carried over to the first sample station, and the reference to it stays.
\<close>

theorem reference_to_dropped_variable_stays:
  "\<exists>parent c cds h' col.
      prepare_parent sample_archive = Inr parent
    \<and> child_init sample_lib 0 parent = Inr c
    \<and> create_dataset_with_variables c sample_heap = Inr (cds, h')
    \<and> map fst (variables cds) = [''PRES'', ''TEMP'', ''TEMP_QC'', ''PRES_DM'']
    \<and> map_of (variables cds) ''TEMP'' = Some col
    \<and> (h' ! col_attrs col) ''ancillary_variables'' = Some (AStr ''TEMP_QC BOT_DEPTH '')"
proof -
  from sample_parent obtain parent where
    parent: "prepare_parent sample_archive = Inr parent" ..
  from sample_station[OF parent, of 0 sample_lib] obtain c cds h' where
    c: "child_init sample_lib 0 parent = Inr c" and
    ok: "create_dataset_with_variables c sample_heap = Inr (cds, h')" by auto
  let ?v = "\<lparr>dims = [''POSITION'', ''PRES_LEVEL''],
             rows = [[Finite 1, Finite 2, Finite 3, Finite 4, NaN],
                     [Finite 5, Finite 6, Finite 7, Finite 8, NaN],
                     [Finite 4, Finite 3, Finite 2, Finite 1, NaN]], attrs_ref = 2\<rparr>"
  have mem: "(''TEMP'', ?v) \<in> set (data_vars sample_archive)"
    by (simp add: sample_archive_def)
  have two: "length (dims ?v) = 2" by simp
  have anc: "(sample_heap ! attrs_ref ?v) ''ancillary_variables''
               = Some (AStr ''TEMP_QC BOT_DEPTH TEMP_ERR'')"
    by (simp add: sample_heap_def temp_attrs_def)
  from station_ancillary[OF parent sample_wf c ok mem two anc]
  obtain col where
    col: "map_of (variables cds) ''TEMP'' = Some col" and
    r: "(h' ! col_attrs col) ''ancillary_variables''
             = Some (AStr (foldl (\<lambda>t av. str_replace av [] t) ''TEMP_QC BOT_DEPTH TEMP_ERR''
                     (filter (\<lambda>av. av \<notin> set (map fst (data_vars sample_archive)))
                        (split_on (CHR '' '') ''TEMP_QC BOT_DEPTH TEMP_ERR''))))"
    by (elim exE conjE) (rule that)
  note r' = r[unfolded sample_references]
  note sc = station_child[OF parent c]
  from sample_wf sc have wf': "wf_archive (contents (parentFile c)) sample_heap" by simp
  from create_names(1)[OF ok wf'] sc have
    "map fst (variables cds) = map fst (two_dim (data_vars sample_archive))" by simp
  then have names: "map fst (variables cds) = [''PRES'', ''TEMP'', ''TEMP_QC'', ''PRES_DM'']"
    by (simp add: sample_archive_def)
  show ?thesis
    by (rule exI[of _ parent], rule exI[of _ c], rule exI[of _ cds], rule exI[of _ h'],
        rule exI[of _ col])
       (intro conjI parent c ok names col r')
qed

end
